theory Spec2Isabelle
  imports Main "HOL-Library.AList"
begin

section \<open>Fava's options: the values the parser handles\<close>

text \<open>
  The module \<^verbatim>\<open>fava/core/fava_options.py\<close> turns the \<^verbatim>\<open>custom "fava-option"\<close>
  entries of a Beancount ledger into a dictionary of options and a list of errors.

  Python objects are modelled by one datatype. A string is a \<^typ>\<open>string\<close> whose
  characters are read as the code points below 256; a compiled regular expression is
  identified with the pattern it was compiled from; a \<^verbatim>\<open>datetime.date\<close> is its year,
  month and day; a \<^verbatim>\<open>Decimal\<close> is its coefficient and exponent. The named tuple
  \<^verbatim>\<open>InsertEntryOption\<close> (fields \<^verbatim>\<open>date re filename lineno\<close>) is a constructor
  of its own.
\<close>

datatype pyval =
    PyNone
  | PyBool bool
  | PyInt int
  | PyStr string
  | PyDecimal int int
  | PyDate int int int
  | PyPattern string
  | PyList "pyval list"
  | InsertEntryOption pyval pyval pyval pyval

text \<open>
  The exceptions that the body of the loop can raise. The handler of \<^verbatim>\<open>parse_options\<close>
  lists the first three; \<^verbatim>\<open>re.error\<close> is written \<open>re_error\<close>.
\<close>

datatype exn =
    IndexError
  | TypeError
  | AssertionError
  | ValueError
  | KeyError
  | AttributeError
  | UnboundLocalError
  | re_error

text \<open>
  Beancount's \<^verbatim>\<open>ValueType(value, dtype)\<close> and \<^verbatim>\<open>Custom(meta, date, type, values)\<close>.
  The metadata is a dictionary; the fields \<^verbatim>\<open>type\<close> and \<^verbatim>\<open>values\<close> are
  called \<open>custom_type\<close> and \<open>custom_values\<close> here.
\<close>

datatype value_type = ValueType (vt_value: pyval) (vt_dtype: string)

record custom =
  meta :: "string \<rightharpoonup> pyval"
  date :: pyval
  custom_type :: string
  custom_values :: "value_type list"

datatype option_error =
  OptionError (source: "string \<rightharpoonup> pyval") (message: string) (entry: custom)

type_synonym options = "string \<rightharpoonup> pyval"

section \<open>The tables of the module\<close>

definition conversion_currencies :: "string list" where
  "conversion_currencies =
    [
     ''AED'', ''AFN'', ''ALL'', ''AMD'', ''ANG'', ''AOA'', ''ARS'', ''AUD'', ''AWG'', ''AZN'',
     ''BAM'', ''BBD'', ''BDT'', ''BGN'', ''BHD'', ''BIF'', ''BMD'', ''BND'', ''BOB'', ''BOV'',
     ''BRL'', ''BSD'', ''BTN'', ''BWP'', ''BYN'', ''BZD'', ''CAD'', ''CDF'', ''CHE'', ''CHF'',
     ''CHW'', ''CLF'', ''CLP'', ''CNY'', ''COP'', ''COU'', ''CRC'', ''CUC'', ''CUP'', ''CVE'',
     ''CZK'', ''DJF'', ''DKK'', ''DOP'', ''DZD'', ''EGP'', ''ERN'', ''ETB'', ''EUR'', ''FJD'',
     ''FKP'', ''GBP'', ''GEL'', ''GHS'', ''GIP'', ''GMD'', ''GNF'', ''GTQ'', ''GYD'', ''HKD'',
     ''HNL'', ''HRK'', ''HTG'', ''HUF'', ''IDR'', ''ILS'', ''INR'', ''IQD'', ''IRR'', ''ISK'',
     ''JMD'', ''JOD'', ''JPY'', ''KES'', ''KGS'', ''KHR'', ''KMF'', ''KPW'', ''KRW'', ''KWD'',
     ''KYD'', ''KZT'', ''LAK'', ''LBP'', ''LKR'', ''LRD'', ''LSL'', ''LYD'', ''MAD'', ''MDL'',
     ''MGA'', ''MKD'', ''MMK'', ''MNT'', ''MOP'', ''MRU'', ''MUR'', ''MVR'', ''MWK'', ''MXN'',
     ''MXV'', ''MYR'', ''MZN'', ''NAD'', ''NGN'', ''NIO'', ''NOK'', ''NPR'', ''NZD'', ''OMR'',
     ''PAB'', ''PEN'', ''PGK'', ''PHP'', ''PKR'', ''PLN'', ''PYG'', ''QAR'', ''RON'', ''RSD'',
     ''RUB'', ''RWF'', ''SAR'', ''SBD'', ''SCR'', ''SDG'', ''SEK'', ''SGD'', ''SHP'', ''SLL'',
     ''SOS'', ''SRD'', ''SSP'', ''STN'', ''SVC'', ''SYP'', ''SZL'', ''THB'', ''TJS'', ''TMT'',
     ''TND'', ''TOP'', ''TRY'', ''TTD'', ''TWD'', ''TZS'', ''UAH'', ''UGX'', ''USD'', ''USN'',
     ''UYI'', ''UYU'', ''UYW'', ''UZS'', ''VES'', ''VND'', ''VUV'', ''WST'', ''XAF'', ''XAG'',
     ''XAU'', ''XBA'', ''XBB'', ''XBC'', ''XBD'', ''XCD'', ''XDR'', ''XOF'', ''XPD'', ''XPF'',
     ''XPT'', ''XSU'', ''XTS'', ''XUA'', ''XXX'', ''YER'', ''ZAR'', ''ZMW'', ''ZWL''
    ]"

definition DEFAULTS_items :: "(string \<times> pyval) list" where
  "DEFAULTS_items =
    [(''account-journal-include-children'', PyBool True),
     (''currency-column'', PyInt 61),
     (''collapse-pattern'', PyList []),
     (''conversion-currencies'', PyList (map PyStr conversion_currencies)),
     (''auto-reload'', PyBool False),
     (''default-file'', PyNone),
     (''fiscal-year-end'', PyStr ''12-31''),
     (''import-config'', PyNone),
     (''import-dirs'', PyList []),
     (''insert-entry'', PyList []),
     (''interval'', PyStr ''month''),
     (''journal-show'',
        PyList (map PyStr [''transaction'', ''balance'', ''note'', ''document'', ''custom'',
          ''budget'', ''query''])),
     (''journal-show-document'', PyList (map PyStr [''discovered'', ''statement''])),
     (''journal-show-transaction'', PyList (map PyStr [''cleared'', ''pending''])),
     (''language'', PyNone),
     (''locale'', PyNone),
     (''show-accounts-with-zero-balance'', PyBool True),
     (''show-accounts-with-zero-transactions'', PyBool True),
     (''show-closed-accounts'', PyBool False),
     (''sidebar-show-queries'', PyInt 5),
     (''unrealized'', PyStr ''Unrealized''),
     (''upcoming-events'', PyInt 7),
     (''uptodate-indicator-grey-lookback-days'', PyInt 60),
     (''use-external-editor'', PyBool False)]"

definition DEFAULTS :: options where
  "DEFAULTS = map_of DEFAULTS_items"

definition BOOL_OPTS :: "string list" where
  "BOOL_OPTS =
    [''account-journal-include-children'',
     ''auto-reload'',
     ''show-accounts-with-zero-balance'',
     ''show-accounts-with-zero-transactions'',
     ''show-closed-accounts'',
     ''use-external-editor'']"

definition INT_OPTS :: "string list" where
  "INT_OPTS =
    [''currency-column'',
     ''sidebar-show-queries'',
     ''upcoming-events'',
     ''uptodate-indicator-grey-lookback-days'']"

definition LIST_OPTS :: "string list" where
  "LIST_OPTS =
    [''conversion-currencies'',
     ''import-dirs'',
     ''journal-show'',
     ''journal-show-document'',
     ''journal-show-transaction'']"

definition STR_OPTS :: "string list" where
  "STR_OPTS =
    [''collapse-pattern'',
     ''fiscal-year-end'',
     ''import-config'',
     ''interval'',
     ''language'',
     ''locale'',
     ''unrealized'']"

definition MULTI_OPTS :: "string list" where
  "MULTI_OPTS = [''collapse-pattern'']"

section \<open>The built-in functions that the parser calls\<close>

text \<open>
  \<^verbatim>\<open>str.lower\<close> on the code points below 256: the letters A to Z and the capital
  letters from 192 to 222, the multiplication sign 215 apart, move up by 32.
\<close>

definition lower_char :: "char \<Rightarrow> char" where
  "lower_char c =
     (let n = (of_char c :: nat) in
      if (65 \<le> n \<and> n \<le> 90) \<or> (192 \<le> n \<and> n \<le> 222 \<and> n \<noteq> 215)
      then char_of (n + 32) else c)"

definition str_lower :: "string \<Rightarrow> string" where
  "str_lower s = map lower_char s"

text \<open>
  \<^verbatim>\<open>str.strip()\<close> removes the characters for which \<^verbatim>\<open>str.isspace\<close> holds from
  both ends: 9 to 13, 28 to 32, 133 and 160.
\<close>

definition isspace :: "char \<Rightarrow> bool" where
  "isspace c =
     (let n = (of_char c :: nat) in
      (9 \<le> n \<and> n \<le> 13) \<or> (28 \<le> n \<and> n \<le> 32) \<or> n = 133 \<or> n = 160)"

definition str_strip :: "string \<Rightarrow> string" where
  "str_strip s = rev (dropWhile isspace (rev (dropWhile isspace s)))"

text \<open>
  \<^verbatim>\<open>s.split(" ")\<close> cuts at every single space, so the empty string gives one empty
  piece and two adjacent spaces give an empty piece between them.
\<close>

fun str_split :: "string \<Rightarrow> string list" where
  "str_split [] = [[]]"
| "str_split (c # cs) =
     (if c = CHR '' '' then [] # str_split cs
      else (case str_split cs of
              w # ws \<Rightarrow> (c # w) # ws
            | [] \<Rightarrow> [[c]]))"

text \<open>
  \<^verbatim>\<open>int(s)\<close> for a string, base 10: white space around the literal is skipped (here
  the characters 9 to 13, 32, 133 and 160; unlike \<^verbatim>\<open>strip\<close>, the separators 28 to 31
  are not accepted), then comes an optional sign, then digits, where single underscores
  may stand between two digits. Anything else raises \<^verbatim>\<open>ValueError\<close>, which is the
  result \<open>None\<close> here. The limit that recent interpreters put on the number of digits
  is left out.
\<close>

definition int_space :: "char \<Rightarrow> bool" where
  "int_space c =
     (let n = (of_char c :: nat) in
      (9 \<le> n \<and> n \<le> 13) \<or> n = 32 \<or> n = 133 \<or> n = 160)"

definition is_digit :: "char \<Rightarrow> bool" where
  "is_digit c = (let n = (of_char c :: nat) in 48 \<le> n \<and> n \<le> 57)"

fun int_digits :: "bool \<Rightarrow> nat \<Rightarrow> string \<Rightarrow> nat option" where
  "int_digits prev acc [] = (if prev then Some acc else None)"
| "int_digits prev acc (c # cs) =
     (if is_digit c then int_digits True (10 * acc + (of_char c - 48)) cs
      else if c = CHR ''_'' \<and> prev then int_digits False acc cs
      else None)"

definition py_int :: "string \<Rightarrow> int option" where
  "py_int s =
     (let t = rev (dropWhile int_space (rev (dropWhile int_space s))) in
      case t of
        [] \<Rightarrow> None
      | c # cs \<Rightarrow>
          if c = CHR ''-'' then map_option (\<lambda>n. - int n) (int_digits False 0 cs)
          else if c = CHR ''+'' then map_option int (int_digits False 0 cs)
          else map_option int (int_digits False 0 t))"

text \<open>
  \<^verbatim>\<open>re.compile(p)\<close>. Which strings are regular expressions is a parameter of the
  model, the predicate \<open>re_ok\<close>: a string that is none raises \<^verbatim>\<open>re.error\<close>, a
  compiled pattern is returned as it is, and any other object raises \<^verbatim>\<open>TypeError\<close>.
\<close>

definition re_compile :: "(string \<Rightarrow> bool) \<Rightarrow> pyval \<Rightarrow> exn + pyval" where
  "re_compile re_ok p =
     (case p of
        PyStr s \<Rightarrow> if re_ok s then Inr (PyPattern s) else Inl re_error
      | PyPattern s \<Rightarrow> Inr (PyPattern s)
      | _ \<Rightarrow> Inl TypeError)"

section \<open>The parser\<close>

text \<open>
  Lines 149 to 157: the value of \<^verbatim>\<open>processed_value\<close>. The local variable
  \<^verbatim>\<open>value\<close> is bound only in the last branch of the first \<^verbatim>\<open>if\<close>, so it is an
  option here, and reading it unbound raises \<^verbatim>\<open>UnboundLocalError\<close>.
\<close>

definition process_value :: "string \<Rightarrow> string option \<Rightarrow> exn + pyval" where
  "process_value key value =
     (if key \<in> set STR_OPTS then
        (case value of None \<Rightarrow> Inl UnboundLocalError | Some v \<Rightarrow> Inr (PyStr v))
      else if key \<in> set BOOL_OPTS then
        (case value of None \<Rightarrow> Inl UnboundLocalError
         | Some v \<Rightarrow> Inr (PyBool (str_lower v = ''true'')))
      else if key \<in> set INT_OPTS then
        (case value of None \<Rightarrow> Inl UnboundLocalError
         | Some v \<Rightarrow> (case py_int v of None \<Rightarrow> Inl ValueError | Some n \<Rightarrow> Inr (PyInt n)))
      else if key \<in> set LIST_OPTS then
        (case value of None \<Rightarrow> Inl UnboundLocalError
         | Some v \<Rightarrow> Inr (PyList (map PyStr (str_split (str_strip v)))))
      else Inr PyNone)"

text \<open>
  \<^verbatim>\<open>options[key].append(x)\<close>: a missing key raises \<^verbatim>\<open>KeyError\<close>, and an object
  that is not a list has no \<^verbatim>\<open>append\<close>. A step of the body returns the exception it
  raised, if any, and the options as they are at that moment.
\<close>

definition list_append :: "string \<Rightarrow> pyval \<Rightarrow> options \<Rightarrow> exn option \<times> options" where
  "list_append key x options =
     (case options key of
        None \<Rightarrow> (Some KeyError, options)
      | Some (PyList xs) \<Rightarrow> (None, options(key \<mapsto> PyList (xs @ [x])))
      | Some _ \<Rightarrow> (Some AttributeError, options))"

text \<open>Lines 149 to 163.\<close>

definition store_processed ::
  "string \<Rightarrow> string option \<Rightarrow> options \<Rightarrow> exn option \<times> options" where
  "store_processed key value options =
     (case process_value key value of
        Inl x \<Rightarrow> (Some x, options)
      | Inr processed_value \<Rightarrow>
          if processed_value \<noteq> PyNone then
            (if key \<in> set MULTI_OPTS then list_append key processed_value options
             else (None, options(key \<mapsto> processed_value)))
          else (None, options))"

text \<open>
  Lines 132 to 163, the body of the \<^verbatim>\<open>try\<close> statement, with the \<^verbatim>\<open>assert\<close>
  statements executed. A key that is not a string is no key of \<^verbatim>\<open>DEFAULTS\<close>.
\<close>

definition try_body ::
  "(string \<Rightarrow> bool) \<Rightarrow> custom \<Rightarrow> options \<Rightarrow> exn option \<times> options" where
  "try_body re_ok e options =
     (case custom_values e of
        [] \<Rightarrow> (Some IndexError, options)
      | v0 # vs \<Rightarrow>
          (case vt_value v0 of
             PyStr key \<Rightarrow>
               if DEFAULTS key = None then (Some AssertionError, options)
               else if key = ''default-file'' then
                 (case meta e ''filename'' of
                    None \<Rightarrow> (Some KeyError, options)
                  | Some f \<Rightarrow> store_processed key None (options(key \<mapsto> f)))
               else if key = ''insert-entry'' then
                 (case vs of
                    [] \<Rightarrow> (Some IndexError, options)
                  | v1 # _ \<Rightarrow>
                      (case re_compile re_ok (vt_value v1) of
                         Inl x \<Rightarrow> (Some x, options)
                       | Inr pat \<Rightarrow>
                           (case meta e ''filename'' of
                              None \<Rightarrow> (Some KeyError, options)
                            | Some f \<Rightarrow>
                                (case meta e ''lineno'' of
                                   None \<Rightarrow> (Some KeyError, options)
                                 | Some l \<Rightarrow>
                                     (case list_append key
                                             (InsertEntryOption (date e) pat f l) options of
                                        (Some x, options') \<Rightarrow> (Some x, options')
                                      | (None, options') \<Rightarrow>
                                          store_processed key None options')))))
               else
                 (case vs of
                    [] \<Rightarrow> (Some IndexError, options)
                  | v1 # _ \<Rightarrow>
                      (case vt_value v1 of
                         PyStr value \<Rightarrow> store_processed key (Some value) options
                       | _ \<Rightarrow> (Some AssertionError, options)))
           | _ \<Rightarrow> (Some AssertionError, options)))"

text \<open>The exceptions of the \<^verbatim>\<open>except\<close> clause, line 165.\<close>

definition caught :: "exn \<Rightarrow> bool" where
  "caught x = (x = IndexError \<or> x = TypeError \<or> x = AssertionError)"

definition failed_to_parse :: "custom \<Rightarrow> option_error" where
  "failed_to_parse e = OptionError (meta e) ''Failed to parse fava-option entry'' e"

text \<open>
  Lines 129 to 170, the loop over the entries: an exception that the handler does not
  list leaves the function, which is the result \<open>Inl\<close>.
\<close>

fun parse_entries ::
  "(string \<Rightarrow> bool) \<Rightarrow> custom list \<Rightarrow> options \<Rightarrow> option_error list \<Rightarrow>
     exn + options \<times> option_error list" where
  "parse_entries re_ok [] options errors = Inr (options, errors)"
| "parse_entries re_ok (e # rest) options errors =
     (if custom_type e = ''fava-option'' then
        (case try_body re_ok e options of
           (None, options') \<Rightarrow> parse_entries re_ok rest options' errors
         | (Some x, options') \<Rightarrow>
             if caught x
             then parse_entries re_ok rest options' (errors @ [failed_to_parse e])
             else Inl x)
      else parse_entries re_ok rest options errors)"

text \<open>
  \<^verbatim>\<open>parse_options\<close>. Values are immutable here, so the deep copy of the defaults
  is the table itself; the copy and the objects it creates are the subject of the last
  section.
\<close>

definition parse_options ::
  "(string \<Rightarrow> bool) \<Rightarrow> custom list \<Rightarrow> exn + options \<times> option_error list" where
  "parse_options re_ok custom_entries = parse_entries re_ok custom_entries DEFAULTS []"

section \<open>Notions used in the statements\<close>

definition option_keys :: "string list" where
  "option_keys = map fst DEFAULTS_items"

text \<open>
  An entry as the Beancount loader hands it over, for the examples: the metadata holds
  the file name and the line number.
\<close>

definition type_name :: "pyval \<Rightarrow> string" where
  "type_name v =
     (case v of
        PyStr _ \<Rightarrow> ''str''
      | PyBool _ \<Rightarrow> ''bool''
      | PyDecimal _ _ \<Rightarrow> ''Decimal''
      | PyDate _ _ _ \<Rightarrow> ''date''
      | _ \<Rightarrow> ''object'')"

definition custom_at :: "string \<Rightarrow> int \<Rightarrow> string \<Rightarrow> pyval list \<Rightarrow> custom" where
  "custom_at file line t vs =
     \<lparr>meta = [''filename'' \<mapsto> PyStr file, ''lineno'' \<mapsto> PyInt line],
      date = PyDate 2016 4 1,
      custom_type = t,
      custom_values = map (\<lambda>v. ValueType v (type_name v)) vs\<rparr>"

definition fava_option :: "int \<Rightarrow> pyval list \<Rightarrow> custom" where
  "fava_option line vs = custom_at ''main.beancount'' line ''fava-option'' vs"

text \<open>
  For the examples, a stand-in for the regular expressions: every string but the single
  opening parenthesis, which \<^verbatim>\<open>re.compile\<close> rejects, counts as one.
\<close>

definition only_paren_invalid :: "string \<Rightarrow> bool" where
  "only_paren_invalid s = (s \<noteq> ''('')"

text \<open>The test of line 133, \<^verbatim>\<open>key in DEFAULTS.keys()\<close>, for any object as the key.\<close>

definition in_DEFAULTS_keys :: "pyval \<Rightarrow> bool" where
  "in_DEFAULTS_keys key = (case key of PyStr k \<Rightarrow> DEFAULTS k \<noteq> None | _ \<Rightarrow> False)"

text \<open>
  A directive names the key \<open>k\<close> when it carries the marker and its first value is the
  string \<open>k\<close>; its string value is its second value, when there is one and it is a
  string. The accepted values of a key are the string values of the directives naming
  it, in the order of the input.
\<close>

definition names_key :: "string \<Rightarrow> custom \<Rightarrow> bool" where
  "names_key k e =
     (custom_type e = ''fava-option'' \<and>
      (case custom_values e of [] \<Rightarrow> False | v0 # _ \<Rightarrow> vt_value v0 = PyStr k))"

definition string_value :: "custom \<Rightarrow> string option" where
  "string_value e =
     (case custom_values e of
        _ # v1 # _ \<Rightarrow> (case vt_value v1 of PyStr v \<Rightarrow> Some v | _ \<Rightarrow> None)
      | _ \<Rightarrow> None)"

definition accepted_values :: "string \<Rightarrow> custom list \<Rightarrow> string list" where
  "accepted_values k es = List.map_filter string_value (filter (names_key k) es)"

section \<open>Objects: the defaults as a dictionary that other code shares\<close>

text \<open>
  \<^verbatim>\<open>DEFAULTS\<close> is one dictionary object of the module, and seven of its values are
  list objects. Whether \<^verbatim>\<open>parse_options\<close> can change them is a question about
  objects, so the parser is modelled a second time with a heap: lists and dictionaries
  live at addresses, \<open>lim\<close> is the first address not yet in use, a dictionary is the
  list of its items in insertion order, and a value stored in a dictionary is either an
  immutable value or the address of a list. The items of a list are immutable values
  here (strings and \<^verbatim>\<open>InsertEntryOption\<close> tuples are all the module puts into any).
\<close>

type_synonym addr = nat

datatype cell = Val pyval | ListRef addr

record heap =
  lists :: "addr \<Rightarrow> pyval list"
  dicts :: "addr \<Rightarrow> (string \<times> cell) list"
  lim :: addr

definition new_list :: "pyval list \<Rightarrow> heap \<Rightarrow> addr \<times> heap" where
  "new_list xs h = (lim h, h\<lparr>lists := (lists h)(lim h := xs), lim := Suc (lim h)\<rparr>)"

definition new_dict :: "(string \<times> cell) list \<Rightarrow> heap \<Rightarrow> addr \<times> heap" where
  "new_dict items h = (lim h, h\<lparr>dicts := (dicts h)(lim h := items), lim := Suc (lim h)\<rparr>)"

text \<open>\<^verbatim>\<open>d[k] = c\<close> and \<^verbatim>\<open>d[k]\<close> for the dictionary at address \<open>d\<close>.\<close>

definition dict_set :: "addr \<Rightarrow> string \<Rightarrow> cell \<Rightarrow> heap \<Rightarrow> heap" where
  "dict_set d k c h = h\<lparr>dicts := (dicts h)(d := AList.update k c (dicts h d))\<rparr>"

definition dict_get :: "addr \<Rightarrow> string \<Rightarrow> heap \<Rightarrow> cell option" where
  "dict_get d k h = map_of (dicts h d) k"

text \<open>The addresses of the lists that a dictionary refers to.\<close>

fun list_refs :: "(string \<times> cell) list \<Rightarrow> addr list" where
  "list_refs [] = []"
| "list_refs ((k, Val v) # items) = list_refs items"
| "list_refs ((k, ListRef a) # items) = a # list_refs items"

text \<open>
  The dictionary display of lines 16 to 69: the values are evaluated from top to bottom,
  each list display creating a list object, and then the dictionary is created.
\<close>

fun dict_display :: "(string \<times> pyval) list \<Rightarrow> heap \<Rightarrow> (string \<times> cell) list \<times> heap" where
  "dict_display [] h = ([], h)"
| "dict_display ((k, v) # rest) h =
     (case v of
        PyList xs \<Rightarrow>
          (let (a, h1) = new_list xs h; (items, h2) = dict_display rest h1
           in ((k, ListRef a) # items, h2))
      | _ \<Rightarrow> (let (items, h2) = dict_display rest h in ((k, Val v) # items, h2)))"

text \<open>
  The state after the module has been imported into an empty heap: the address of
  \<^verbatim>\<open>DEFAULTS\<close> and the heap.
\<close>

definition module_import :: "addr \<times> heap" where
  "module_import =
     (let (items, h) = dict_display DEFAULTS_items \<lparr>lists = (\<lambda>a. []), dicts = (\<lambda>a. []), lim = 0\<rparr>
      in new_dict items h)"

text \<open>
  \<^verbatim>\<open>copy.deepcopy(x)\<close> for a dictionary \<open>x\<close> of immutable values and lists of
  immutable values: a new dictionary \<open>y\<close> is created and filled item by item; an immutable
  value is taken as it is, a list is copied to a new list, and the memo maps every list
  already copied to its copy, so that a list met twice is copied once.
\<close>

fun deepcopy_items ::
  "(string \<times> cell) list \<Rightarrow> addr \<Rightarrow> (addr \<rightharpoonup> addr) \<Rightarrow> heap \<Rightarrow> (addr \<rightharpoonup> addr) \<times> heap" where
  "deepcopy_items [] y memo h = (memo, h)"
| "deepcopy_items ((k, c) # items) y memo h =
     (case c of
        Val v \<Rightarrow> deepcopy_items items y memo (dict_set y k (Val v) h)
      | ListRef a \<Rightarrow>
          (case memo a of
             Some a' \<Rightarrow> deepcopy_items items y memo (dict_set y k (ListRef a') h)
           | None \<Rightarrow>
               (let (a', h1) = new_list (lists h a) h
                in deepcopy_items items y (memo(a \<mapsto> a')) (dict_set y k (ListRef a') h1))))"

definition deepcopy :: "addr \<Rightarrow> heap \<Rightarrow> addr \<times> heap" where
  "deepcopy x h =
     (let (y, h1) = new_dict [] h;
          (memo, h2) = deepcopy_items (dicts h x) y Map.empty h1
      in (y, h2))"

text \<open>
  \<^verbatim>\<open>options[key].append(x)\<close> on the heap, and the object that a processed value is:
  the list that \<^verbatim>\<open>split\<close> returns is a new list object.
\<close>

definition list_append_heap :: "addr \<Rightarrow> string \<Rightarrow> pyval \<Rightarrow> heap \<Rightarrow> exn option \<times> heap" where
  "list_append_heap options key x h =
     (case dict_get options key h of
        None \<Rightarrow> (Some KeyError, h)
      | Some (ListRef a) \<Rightarrow> (None, h\<lparr>lists := (lists h)(a := lists h a @ [x])\<rparr>)
      | Some (Val v) \<Rightarrow> (Some AttributeError, h))"

definition new_object :: "pyval \<Rightarrow> heap \<Rightarrow> cell \<times> heap" where
  "new_object v h =
     (case v of
        PyList xs \<Rightarrow> (let (a, h1) = new_list xs h in (ListRef a, h1))
      | _ \<Rightarrow> (Val v, h))"

text \<open>Lines 149 to 163 on the heap.\<close>

definition store_processed_heap ::
  "addr \<Rightarrow> string \<Rightarrow> string option \<Rightarrow> heap \<Rightarrow> exn option \<times> heap" where
  "store_processed_heap options key value h =
     (case process_value key value of
        Inl x \<Rightarrow> (Some x, h)
      | Inr processed_value \<Rightarrow>
          (let (c, h1) = new_object processed_value h in
           if processed_value \<noteq> PyNone then
             (if key \<in> set MULTI_OPTS then list_append_heap options key processed_value h1
              else (None, dict_set options key c h1))
           else (None, h1)))"

text \<open>
  Lines 132 to 163 on the heap; \<open>defaults\<close> is the address of \<^verbatim>\<open>DEFAULTS\<close> and
  \<open>options\<close> the address of the local dictionary.
\<close>

definition try_body_heap ::
  "(string \<Rightarrow> bool) \<Rightarrow> addr \<Rightarrow> addr \<Rightarrow> custom \<Rightarrow> heap \<Rightarrow> exn option \<times> heap" where
  "try_body_heap re_ok defaults options e h =
     (case custom_values e of
        [] \<Rightarrow> (Some IndexError, h)
      | v0 # vs \<Rightarrow>
          (case vt_value v0 of
             PyStr key \<Rightarrow>
               if dict_get defaults key h = None then (Some AssertionError, h)
               else if key = ''default-file'' then
                 (case meta e ''filename'' of
                    None \<Rightarrow> (Some KeyError, h)
                  | Some f \<Rightarrow> store_processed_heap options key None (dict_set options key (Val f) h))
               else if key = ''insert-entry'' then
                 (case vs of
                    [] \<Rightarrow> (Some IndexError, h)
                  | v1 # _ \<Rightarrow>
                      (case re_compile re_ok (vt_value v1) of
                         Inl x \<Rightarrow> (Some x, h)
                       | Inr pat \<Rightarrow>
                           (case meta e ''filename'' of
                              None \<Rightarrow> (Some KeyError, h)
                            | Some f \<Rightarrow>
                                (case meta e ''lineno'' of
                                   None \<Rightarrow> (Some KeyError, h)
                                 | Some l \<Rightarrow>
                                     (case list_append_heap options key
                                             (InsertEntryOption (date e) pat f l) h of
                                        (Some x, h') \<Rightarrow> (Some x, h')
                                      | (None, h') \<Rightarrow>
                                          store_processed_heap options key None h')))))
               else
                 (case vs of
                    [] \<Rightarrow> (Some IndexError, h)
                  | v1 # _ \<Rightarrow>
                      (case vt_value v1 of
                         PyStr value \<Rightarrow> store_processed_heap options key (Some value) h
                       | _ \<Rightarrow> (Some AssertionError, h)))
           | _ \<Rightarrow> (Some AssertionError, h)))"

text \<open>
  The loop and the function on the heap. The heap is part of the result also when an
  exception leaves the function: the objects stay as they are at that moment.
\<close>

fun parse_entries_heap ::
  "(string \<Rightarrow> bool) \<Rightarrow> addr \<Rightarrow> addr \<Rightarrow> custom list \<Rightarrow> option_error list \<Rightarrow> heap \<Rightarrow>
     (exn + addr \<times> option_error list) \<times> heap" where
  "parse_entries_heap re_ok defaults options [] errors h = (Inr (options, errors), h)"
| "parse_entries_heap re_ok defaults options (e # rest) errors h =
     (if custom_type e = ''fava-option'' then
        (case try_body_heap re_ok defaults options e h of
           (None, h') \<Rightarrow> parse_entries_heap re_ok defaults options rest errors h'
         | (Some x, h') \<Rightarrow>
             if caught x
             then parse_entries_heap re_ok defaults options rest
                    (errors @ [failed_to_parse e]) h'
             else (Inl x, h'))
      else parse_entries_heap re_ok defaults options rest errors h)"

definition parse_options_heap ::
  "(string \<Rightarrow> bool) \<Rightarrow> addr \<Rightarrow> custom list \<Rightarrow> heap \<Rightarrow>
     (exn + addr \<times> option_error list) \<times> heap" where
  "parse_options_heap re_ok defaults custom_entries h =
     (let (options, h1) = deepcopy defaults h
      in parse_entries_heap re_ok defaults options custom_entries [] h1)"

text \<open>What a dictionary of the heap holds, with every list read through its address.\<close>

definition read_cell :: "heap \<Rightarrow> cell \<Rightarrow> pyval" where
  "read_cell h c = (case c of Val v \<Rightarrow> v | ListRef a \<Rightarrow> PyList (lists h a))"

definition read_dict :: "heap \<Rightarrow> addr \<Rightarrow> options" where
  "read_dict h d = map_of (map (\<lambda>(k, c). (k, read_cell h c)) (dicts h d))"

text \<open>
  A heap is untouched below \<open>n\<close> when every object at an address below \<open>n\<close> is what it
  was. A dictionary is owned from \<open>n\<close> on when it and all the lists it refers to were
  created at \<open>n\<close> or later.
\<close>

definition untouched_below :: "addr \<Rightarrow> heap \<Rightarrow> heap \<Rightarrow> bool" where
  "untouched_below n h h' =
     (lim h \<le> lim h' \<and> (\<forall>a < n. lists h' a = lists h a \<and> dicts h' a = dicts h a))"

definition owned_from :: "addr \<Rightarrow> addr \<Rightarrow> heap \<Rightarrow> bool" where
  "owned_from n d h =
     (n \<le> d \<and> d < lim h \<and> (\<forall>a \<in> set (list_refs (dicts h d)). n \<le> a \<and> a < lim h))"

text \<open>
  \<^verbatim>\<open>DEFAULTS\<close> is intact in a heap when the dictionary at its address reads as the
  table of the module, its keys are distinct, its lists are separate objects of the heap,
  and the two options that the parser appends to are list objects. A local dictionary is
  well formed when it is owned, its keys are distinct, its lists are separate objects and
  the same two options are list objects.
\<close>

definition appended_keys :: "string list" where
  "appended_keys = [''insert-entry'', ''collapse-pattern'']"

definition holds_lists :: "addr \<Rightarrow> heap \<Rightarrow> bool" where
  "holds_lists d h = list_all (\<lambda>k. \<exists>a. dict_get d k h = Some (ListRef a)) appended_keys"

definition defaults_intact :: "addr \<Rightarrow> heap \<Rightarrow> bool" where
  "defaults_intact g h =
     (g < lim h \<and> distinct (map fst (dicts h g)) \<and> distinct (list_refs (dicts h g)) \<and>
      list_all (\<lambda>a. a < lim h) (list_refs (dicts h g)) \<and> holds_lists g h \<and>
      read_dict h g = DEFAULTS)"

definition options_ok :: "addr \<Rightarrow> addr \<Rightarrow> heap \<Rightarrow> bool" where
  "options_ok n d h =
     (owned_from n d h \<and> distinct (map fst (dicts h d)) \<and> distinct (list_refs (dicts h d)) \<and>
      holds_lists d h)"

text \<open>The result of a run on the heap, with the options read from the final heap.\<close>

definition read_result ::
  "(exn + addr \<times> option_error list) \<times> heap \<Rightarrow> exn + options \<times> option_error list" where
  "read_result run =
     (case fst run of
        Inl x \<Rightarrow> Inl x
      | Inr (d, errs) \<Rightarrow> Inr (read_dict (snd run) d, errs))"

section \<open>The loop, piece by piece\<close>

lemma parse_entries_append:
  "parse_entries re_ok (xs @ ys) opts errs =
     (case parse_entries re_ok xs opts errs of
        Inl x \<Rightarrow> Inl x
      | Inr (opts', errs') \<Rightarrow> parse_entries re_ok ys opts' errs')"
  by (induction xs arbitrary: opts errs) (auto split: option.splits prod.splits)

lemma parse_entries_errors:
  "parse_entries re_ok es opts errs =
     map_sum id (\<lambda>(opts', errs'). (opts', errs @ errs')) (parse_entries re_ok es opts [])"
proof (induction es arbitrary: opts errs)
  case Nil
  show ?case by simp
next
  case (Cons e es)
  show ?case
  proof (cases "custom_type e = ''fava-option''")
    case False
    then show ?thesis using Cons.IH [of opts errs] by simp
  next
    case True
    obtain r opts' where tb: "try_body re_ok e opts = (r, opts')"
      by (cases "try_body re_ok e opts")
    show ?thesis
    proof (cases r)
      case None
      then show ?thesis using True tb Cons.IH [of opts' errs] by simp
    next
      case (Some x)
      show ?thesis
      proof (cases "caught x")
        case False
        then show ?thesis using True tb Some by simp
      next
        case c: True
        have "parse_entries re_ok es opts' (errs @ [failed_to_parse e]) =
              map_sum id (\<lambda>(o', e'). (o', (errs @ [failed_to_parse e]) @ e'))
                (parse_entries re_ok es opts' [])"
          by (rule Cons.IH)
        moreover have "parse_entries re_ok es opts' [failed_to_parse e] =
              map_sum id (\<lambda>(o', e'). (o', [failed_to_parse e] @ e'))
                (parse_entries re_ok es opts' [])"
          by (rule Cons.IH)
        ultimately show ?thesis using True tb Some c
          by (cases "parse_entries re_ok es opts' []") auto
      qed
    qed
  qed
qed

lemma parse_options_snoc:
  "parse_options re_ok (pre @ [d]) =
     (case parse_options re_ok pre of
        Inl x \<Rightarrow> Inl x
      | Inr (opts, errs) \<Rightarrow> parse_entries re_ok [d] opts errs)"
  by (simp add: parse_options_def parse_entries_append)

lemma parse_options_insert:
  "parse_options re_ok (pre @ d # post) =
     (case parse_options re_ok pre of
        Inl x \<Rightarrow> Inl x
      | Inr (opts, errs) \<Rightarrow> parse_entries re_ok (d # post) opts errs)"
  by (simp add: parse_options_def parse_entries_append)

lemma parse_options_append:
  "parse_options re_ok (pre @ post) =
     (case parse_options re_ok pre of
        Inl x \<Rightarrow> Inl x
      | Inr (opts, errs) \<Rightarrow> parse_entries re_ok post opts errs)"
  by (simp add: parse_options_def parse_entries_append)

lemma parse_entries_raise:
  assumes "custom_type d = ''fava-option''"
    and "try_body re_ok d opts = (Some x, opts')" and "\<not> caught x"
  shows "parse_entries re_ok (d # post) opts errs = Inl x"
  using assms by simp

section \<open>The tables\<close>

lemma DEFAULTS_eq_None: "DEFAULTS k = None \<longleftrightarrow> k \<notin> set option_keys"
  by (simp add: DEFAULTS_def option_keys_def map_of_eq_None_iff)

lemma INT_OPTS_cases:
  "k \<in> set INT_OPTS \<longleftrightarrow>
     k = ''currency-column'' \<or> k = ''sidebar-show-queries'' \<or> k = ''upcoming-events'' \<or>
     k = ''uptodate-indicator-grey-lookback-days''"
  by (simp add: INT_OPTS_def)

lemma INT_OPTS_facts:
  assumes "k \<in> set INT_OPTS"
  shows "DEFAULTS k \<noteq> None" and "k \<noteq> ''default-file''" and "k \<noteq> ''insert-entry''"
    and "k \<notin> set STR_OPTS" and "k \<notin> set BOOL_OPTS" and "k \<notin> set MULTI_OPTS"
  using assms unfolding INT_OPTS_cases DEFAULTS_eq_None
  by (elim disjE; simp add: option_keys_def DEFAULTS_items_def STR_OPTS_def BOOL_OPTS_def
        MULTI_OPTS_def)+

lemma try_body_generic:
  assumes "custom_values d = v0 # v1 # vs" and "vt_value v0 = PyStr k"
    and "vt_value v1 = PyStr v"
    and "DEFAULTS k \<noteq> None" and "k \<noteq> ''default-file''" and "k \<noteq> ''insert-entry''"
  shows "try_body re_ok d opts = store_processed k (Some v) opts"
  using assms by (auto simp: try_body_def)

section \<open>Integer options\<close>

lemma try_body_int_invalid:
  assumes "custom_values d = v0 # v1 # vs" and "vt_value v0 = PyStr k"
    and "k \<in> set INT_OPTS" and "vt_value v1 = PyStr v" and "py_int v = None"
  shows "try_body re_ok d opts = (Some ValueError, opts)"
proof -
  have "try_body re_ok d opts = store_processed k (Some v) opts"
    using assms INT_OPTS_facts(1-3) [OF assms(3)] by (intro try_body_generic) auto
  also have "\<dots> = (Some ValueError, opts)"
    using assms(3,5) INT_OPTS_facts(4,5) [OF assms(3)]
    by (simp add: store_processed_def process_value_def)
  finally show ?thesis .
qed

text \<open>
  C1. The claim: an integer option given a string that is no base-10 integer literal
  yields one \<^verbatim>\<open>OptionError\<close> and keeps the previous value. The code does not do
  that: \<^verbatim>\<open>int(value)\<close> raises \<^verbatim>\<open>ValueError\<close>, which the handler of line 165 does
  not list, so \<^verbatim>\<open>parse_options\<close> itself raises it as soon as the entries before the
  directive have been processed. No options and no errors are returned.
\<close>

theorem int_option_invalid_literal_raises:
  assumes "custom_type d = ''fava-option''"
    and "custom_values d = v0 # v1 # vs"
    and "vt_value v0 = PyStr k" and "k \<in> set INT_OPTS"
    and "vt_value v1 = PyStr v" and "py_int v = None"
  shows "parse_options re_ok (pre @ d # post) =
           (case parse_options re_ok pre of Inl x \<Rightarrow> Inl x | Inr r \<Rightarrow> Inl ValueError)"
proof -
  have "\<And>opts errs. parse_entries re_ok (d # post) opts errs = Inl ValueError"
    using assms(1) try_body_int_invalid [OF assms(2-6)]
    by (intro parse_entries_raise) (auto simp: caught_def)
  then show ?thesis
    by (simp add: parse_options_insert split: sum.splits)
qed

theorem int_option_invalid_literal_raises_witness:
  "custom_type (fava_option 2 [PyStr ''sidebar-show-queries'', PyStr ''abc'']) = ''fava-option''
   \<and> ''sidebar-show-queries'' \<in> set INT_OPTS
   \<and> py_int ''abc'' = None
   \<and> parse_options only_paren_invalid
         ([fava_option 1 [PyStr ''currency-column'', PyStr ''80'']]
          @ fava_option 2 [PyStr ''sidebar-show-queries'', PyStr ''abc'']
          # [fava_option 3 [PyStr ''interval'', PyStr ''year'']]) = Inl ValueError"
proof -
  let ?d = "fava_option 2 [PyStr ''sidebar-show-queries'', PyStr ''abc'']"
  have t: "custom_type ?d = ''fava-option''"
    by (simp add: fava_option_def custom_at_def)
  have vs: "custom_values ?d =
      ValueType (PyStr ''sidebar-show-queries'') ''str'' # ValueType (PyStr ''abc'') ''str'' # []"
    by (simp add: fava_option_def custom_at_def type_name_def)
  have k: "''sidebar-show-queries'' \<in> set INT_OPTS"
    by (simp add: INT_OPTS_def)
  have n: "py_int ''abc'' = None"
    by (simp add: py_int_def int_space_def is_digit_def)
  have pre: "parse_options only_paren_invalid
      [fava_option 1 [PyStr ''currency-column'', PyStr ''80'']] =
      Inr (DEFAULTS(''currency-column'' \<mapsto> PyInt 80), [])"
    by (simp add: parse_options_def fava_option_def custom_at_def type_name_def try_body_def
        DEFAULTS_def DEFAULTS_items_def store_processed_def process_value_def STR_OPTS_def
        BOOL_OPTS_def INT_OPTS_def MULTI_OPTS_def py_int_def is_digit_def int_space_def)
  show ?thesis
    using int_option_invalid_literal_raises [OF t vs _ k _ n, of only_paren_invalid
        "[fava_option 1 [PyStr ''currency-column'', PyStr ''80'']]"
        "[fava_option 3 [PyStr ''interval'', PyStr ''year'']]"]
      t k n pre
    by simp
qed

section \<open>The option insert-entry\<close>

lemma insert_entry_key:
  "DEFAULTS ''insert-entry'' = Some (PyList [])"
  by (simp add: DEFAULTS_def DEFAULTS_items_def)

lemma try_body_insert_entry_invalid:
  assumes "custom_values d = v0 # v1 # vs" and "vt_value v0 = PyStr ''insert-entry''"
    and "vt_value v1 = PyStr p" and "\<not> re_ok p"
  shows "try_body re_ok d opts = (Some re_error, opts)"
  using assms by (simp add: try_body_def insert_entry_key re_compile_def)

text \<open>
  C2. The claim: an \<^verbatim>\<open>insert-entry\<close> directive whose string is not a regular
  expression yields one \<^verbatim>\<open>OptionError\<close> and appends nothing. The code does not do
  that: \<^verbatim>\<open>re.compile\<close> raises \<^verbatim>\<open>re.error\<close>, which the handler of line 165 does
  not list, so the whole call raises it and returns neither options nor errors.
\<close>

theorem insert_entry_invalid_regex_raises:
  assumes "custom_type d = ''fava-option''"
    and "custom_values d = v0 # v1 # vs"
    and "vt_value v0 = PyStr ''insert-entry''"
    and "vt_value v1 = PyStr p" and "\<not> re_ok p"
  shows "parse_options re_ok (pre @ d # post) =
           (case parse_options re_ok pre of Inl x \<Rightarrow> Inl x | Inr r \<Rightarrow> Inl re_error)"
proof -
  have "try_body re_ok d opts = (Some re_error, opts)" for opts
    using assms(2-5) by (simp add: try_body_insert_entry_invalid [where p = p])
  then have "\<And>opts errs. parse_entries re_ok (d # post) opts errs = Inl re_error"
    using assms(1) by (simp add: caught_def)
  then show ?thesis
    by (simp add: parse_options_insert split: sum.splits)
qed

theorem insert_entry_invalid_regex_raises_witness:
  "custom_type (fava_option 2 [PyStr ''insert-entry'', PyStr ''('']) = ''fava-option''
   \<and> \<not> only_paren_invalid ''(''
   \<and> parse_options only_paren_invalid
         ([fava_option 1 [PyStr ''insert-entry'', PyStr ''^2016'']]
          @ fava_option 2 [PyStr ''insert-entry'', PyStr ''('']
          # [fava_option 3 [PyStr ''interval'', PyStr ''year'']]) = Inl re_error"
proof -
  let ?d = "fava_option 2 [PyStr ''insert-entry'', PyStr ''('']"
  have t: "custom_type ?d = ''fava-option''"
    by (simp add: fava_option_def custom_at_def)
  have vs: "custom_values ?d =
      ValueType (PyStr ''insert-entry'') ''str'' # ValueType (PyStr ''('') ''str'' # []"
    by (simp add: fava_option_def custom_at_def type_name_def)
  have bad: "\<not> only_paren_invalid ''(''"
    by (simp add: only_paren_invalid_def)
  have pre: "parse_options only_paren_invalid
      [fava_option 1 [PyStr ''insert-entry'', PyStr ''^2016'']] =
      Inr (DEFAULTS(''insert-entry'' \<mapsto>
             PyList [InsertEntryOption (PyDate 2016 4 1) (PyPattern ''^2016'')
                       (PyStr ''main.beancount'') (PyInt 1)]), [])"
    by (simp add: parse_options_def fava_option_def custom_at_def type_name_def try_body_def
        DEFAULTS_def DEFAULTS_items_def store_processed_def process_value_def STR_OPTS_def
        BOOL_OPTS_def INT_OPTS_def LIST_OPTS_def MULTI_OPTS_def re_compile_def
        only_paren_invalid_def list_append_def)
  show ?thesis
    using insert_entry_invalid_regex_raises [where d = ?d and p = "''(''"
        and re_ok = only_paren_invalid
        and pre = "[fava_option 1 [PyStr ''insert-entry'', PyStr ''^2016'']]"
        and post = "[fava_option 3 [PyStr ''interval'', PyStr ''year'']]", OF t vs]
      t bad pre
    by simp
qed

section \<open>Runs that raise\<close>

text \<open>
  C3. The claim: whatever the directives contain, \<^verbatim>\<open>parse_options\<close> returns a pair
  of options and errors, and a failing directive leaves the others alone. The code does
  so for the exceptions its handler lists (a missing value, an unknown key, a value
  that is not a string), but not for an integer option with a value such as
  \<^verbatim>\<open>abc\<close> nor for an \<^verbatim>\<open>insert-entry\<close> with a pattern such as \<^verbatim>\<open>(\<close>: there the call
  raises, and the valid directives before and after the failing one are lost with it.
\<close>

theorem malformed_directive_aborts_run:
  "parse_options re_ok
     [fava_option 1 [PyStr ''currency-column'', PyStr ''80''],
      fava_option 2 [PyStr ''sidebar-show-queries'', PyStr ''abc''],
      fava_option 3 [PyStr ''interval'', PyStr ''year'']] = Inl ValueError
   \<and> parse_options only_paren_invalid
     [fava_option 1 [PyStr ''currency-column'', PyStr ''80''],
      fava_option 2 [PyStr ''insert-entry'', PyStr ''(''],
      fava_option 3 [PyStr ''interval'', PyStr ''year'']] = Inl re_error"
  by (simp add: parse_options_def fava_option_def custom_at_def type_name_def try_body_def
      DEFAULTS_def DEFAULTS_items_def store_processed_def process_value_def STR_OPTS_def
      BOOL_OPTS_def INT_OPTS_def LIST_OPTS_def MULTI_OPTS_def re_compile_def
      only_paren_invalid_def list_append_def py_int_def is_digit_def int_space_def caught_def)

section \<open>Unknown keys\<close>

lemma try_body_unknown_key:
  assumes "custom_values d = v0 # vs" and "\<not> in_DEFAULTS_keys (vt_value v0)"
  shows "try_body re_ok d opts = (Some AssertionError, opts)"
  using assms
  by (cases "vt_value v0") (auto simp: try_body_def in_DEFAULTS_keys_def)

lemma parse_entries_unknown_key:
  assumes "custom_type d = ''fava-option''"
    and "custom_values d = v0 # vs" and "\<not> in_DEFAULTS_keys (vt_value v0)"
  shows "parse_entries re_ok (d # post) opts errs =
           parse_entries re_ok post opts (errs @ [failed_to_parse d])"
  using assms(1) try_body_unknown_key [OF assms(2,3)] by (simp add: caught_def)

text \<open>
  C4. A directive with the marker whose key is not a key of \<^verbatim>\<open>DEFAULTS\<close> adds
  exactly one \<^verbatim>\<open>OptionError\<close>, with the fixed message, the metadata of the directive
  and the directive itself, and changes no option. First conjunct: right after the
  directive, the options are those of the entries before it and the error is the last of
  the list. Second and third conjunct: with any entries after it, the run ends as the
  run without the directive does, with the same options and the same errors, the new
  one standing between those of the entries before and those of the entries after.
\<close>

theorem unknown_key_one_error:
  assumes "custom_type d = ''fava-option''"
    and "custom_values d = v0 # vs"
    and "\<not> in_DEFAULTS_keys (vt_value v0)"
  shows
    "parse_options re_ok (pre @ [d]) =
       map_sum id
         (\<lambda>(opts, errs).
            (opts, errs @ [OptionError (meta d) ''Failed to parse fava-option entry'' d]))
         (parse_options re_ok pre)
     \<and> (\<forall>opts errs. parse_options re_ok (pre @ post) = Inr (opts, errs) \<longrightarrow>
          (\<exists>opts1 errs1 errs2.
             parse_options re_ok pre = Inr (opts1, errs1) \<and> errs = errs1 @ errs2 \<and>
             parse_options re_ok (pre @ d # post) =
               Inr (opts,
                 errs1 @ OptionError (meta d) ''Failed to parse fava-option entry'' d # errs2)))
     \<and> (\<forall>x. parse_options re_ok (pre @ post) = Inl x \<longrightarrow>
          parse_options re_ok (pre @ d # post) = Inl x)"
proof (intro conjI allI impI)
  show "parse_options re_ok (pre @ [d]) =
       map_sum id
         (\<lambda>(opts, errs).
            (opts, errs @ [OptionError (meta d) ''Failed to parse fava-option entry'' d]))
         (parse_options re_ok pre)"
    using parse_entries_unknown_key [OF assms, of re_ok "[]"]
    by (cases "parse_options re_ok pre")
      (auto simp: parse_options_snoc failed_to_parse_def)
next
  fix opts errs
  assume run: "parse_options re_ok (pre @ post) = Inr (opts, errs)"
  then obtain opts1 errs1 where pre: "parse_options re_ok pre = Inr (opts1, errs1)"
    and post: "parse_entries re_ok post opts1 errs1 = Inr (opts, errs)"
    by (cases "parse_options re_ok pre") (auto simp: parse_options_append)
  from post obtain errs2 where p0: "parse_entries re_ok post opts1 [] = Inr (opts, errs2)"
    and e: "errs = errs1 @ errs2"
    using parse_entries_errors [of re_ok post opts1 errs1]
    by (cases "parse_entries re_ok post opts1 []") auto
  have "parse_options re_ok (pre @ d # post) =
          parse_entries re_ok post opts1 (errs1 @ [failed_to_parse d])"
    using pre parse_entries_unknown_key [OF assms, of re_ok post opts1 errs1]
    by (simp add: parse_options_insert)
  also have "\<dots> = Inr (opts, (errs1 @ [failed_to_parse d]) @ errs2)"
    using p0 parse_entries_errors [of re_ok post opts1 "errs1 @ [failed_to_parse d]"]
    by simp
  finally show "\<exists>opts1 errs1 errs2.
             parse_options re_ok pre = Inr (opts1, errs1) \<and> errs = errs1 @ errs2 \<and>
             parse_options re_ok (pre @ d # post) =
               Inr (opts,
                 errs1 @ OptionError (meta d) ''Failed to parse fava-option entry'' d # errs2)"
    using pre e by (simp add: failed_to_parse_def)
next
  fix x
  assume run: "parse_options re_ok (pre @ post) = Inl x"
  show "parse_options re_ok (pre @ d # post) = Inl x"
  proof (cases "parse_options re_ok pre")
    case (Inl y)
    then show ?thesis using run by (simp add: parse_options_append parse_options_insert)
  next
    case (Inr r)
    obtain opts1 errs1 where r: "r = (opts1, errs1)" by (cases r)
    have post: "parse_entries re_ok post opts1 errs1 = Inl x"
      using run Inr r by (simp add: parse_options_append)
    then have "parse_entries re_ok post opts1 [] = Inl x"
      using parse_entries_errors [of re_ok post opts1 errs1]
      by (cases "parse_entries re_ok post opts1 []") auto
    then have "parse_entries re_ok post opts1 (errs1 @ [failed_to_parse d]) = Inl x"
      using parse_entries_errors [of re_ok post opts1 "errs1 @ [failed_to_parse d]"]
      by simp
    then show ?thesis
      using Inr r parse_entries_unknown_key [OF assms, of re_ok post opts1 errs1]
      by (simp add: parse_options_insert)
  qed
qed

theorem unknown_key_one_error_witness:
  "custom_type (fava_option 2 [PyStr ''not-a-real-option'', PyStr ''x'']) = ''fava-option''
   \<and> \<not> in_DEFAULTS_keys (PyStr ''not-a-real-option'')
   \<and> parse_options only_paren_invalid
        ([fava_option 1 [PyStr ''currency-column'', PyStr ''80'']]
         @ [fava_option 2 [PyStr ''not-a-real-option'', PyStr ''x'']]) =
       Inr (DEFAULTS(''currency-column'' \<mapsto> PyInt 80),
            [OptionError (meta (fava_option 2 [PyStr ''not-a-real-option'', PyStr ''x'']))
               ''Failed to parse fava-option entry''
               (fava_option 2 [PyStr ''not-a-real-option'', PyStr ''x''])])"
proof -
  let ?d = "fava_option 2 [PyStr ''not-a-real-option'', PyStr ''x'']"
  have t: "custom_type ?d = ''fava-option''"
    by (simp add: fava_option_def custom_at_def)
  have vs: "custom_values ?d =
      ValueType (PyStr ''not-a-real-option'') ''str'' # [ValueType (PyStr ''x'') ''str'']"
    by (simp add: fava_option_def custom_at_def type_name_def)
  have k: "\<not> in_DEFAULTS_keys (PyStr ''not-a-real-option'')"
    by (simp add: in_DEFAULTS_keys_def DEFAULTS_def DEFAULTS_items_def)
  have pre: "parse_options only_paren_invalid
      [fava_option 1 [PyStr ''currency-column'', PyStr ''80'']] =
      Inr (DEFAULTS(''currency-column'' \<mapsto> PyInt 80), [])"
    by (simp add: parse_options_def fava_option_def custom_at_def type_name_def try_body_def
        DEFAULTS_def DEFAULTS_items_def store_processed_def process_value_def STR_OPTS_def
        BOOL_OPTS_def INT_OPTS_def MULTI_OPTS_def py_int_def is_digit_def int_space_def)
  have "parse_options only_paren_invalid
        ([fava_option 1 [PyStr ''currency-column'', PyStr ''80'']] @ [?d]) =
       map_sum id
         (\<lambda>(opts, errs).
            (opts, errs @ [OptionError (meta ?d) ''Failed to parse fava-option entry'' ?d]))
         (parse_options only_paren_invalid
            [fava_option 1 [PyStr ''currency-column'', PyStr ''80'']])"
    using unknown_key_one_error [where d = ?d and re_ok = only_paren_invalid
        and pre = "[fava_option 1 [PyStr ''currency-column'', PyStr ''80'']]" and post = "[]",
        OF t vs] k
    by simp
  then show ?thesis
    using t k pre by simp
qed

section \<open>Boolean options\<close>

lemma BOOL_OPTS_cases:
  "k \<in> set BOOL_OPTS \<longleftrightarrow>
     k = ''account-journal-include-children'' \<or> k = ''auto-reload'' \<or>
     k = ''show-accounts-with-zero-balance'' \<or> k = ''show-accounts-with-zero-transactions'' \<or>
     k = ''show-closed-accounts'' \<or> k = ''use-external-editor''"
  by (simp add: BOOL_OPTS_def)

lemma BOOL_OPTS_facts:
  assumes "k \<in> set BOOL_OPTS"
  shows "DEFAULTS k \<noteq> None" and "k \<noteq> ''default-file''" and "k \<noteq> ''insert-entry''"
    and "k \<notin> set STR_OPTS" and "k \<notin> set MULTI_OPTS"
  using assms unfolding BOOL_OPTS_cases DEFAULTS_eq_None
  by (elim disjE; simp add: option_keys_def DEFAULTS_items_def STR_OPTS_def MULTI_OPTS_def)+

lemma try_body_bool:
  assumes "custom_values d = v0 # v1 # vs" and "vt_value v0 = PyStr k"
    and "k \<in> set BOOL_OPTS" and "vt_value v1 = PyStr v"
  shows "try_body re_ok d opts = (None, opts(k \<mapsto> PyBool (str_lower v = ''true'')))"
proof -
  have "try_body re_ok d opts = store_processed k (Some v) opts"
    using assms BOOL_OPTS_facts(1-3) [OF assms(3)] by (intro try_body_generic) auto
  also have "\<dots> = (None, opts(k \<mapsto> PyBool (str_lower v = ''true'')))"
    using assms(3) BOOL_OPTS_facts(4,5) [OF assms(3)]
    by (simp add: store_processed_def process_value_def)
  finally show ?thesis .
qed

lemma of_char_inj: "(of_char a :: nat) = of_char b \<Longrightarrow> a = b"
  by (metis char_of_char)

lemma lower_char_ascii_letter:
  assumes "(of_char x :: nat) = n + 32" and "65 \<le> n" and "n \<le> 90"
  shows "lower_char c = x \<longleftrightarrow> c = x \<or> (of_char c :: nat) = n"
proof (cases "(65 \<le> (of_char c :: nat) \<and> (of_char c :: nat) \<le> 90) \<or>
      (192 \<le> (of_char c :: nat) \<and> (of_char c :: nat) \<le> 222 \<and> (of_char c :: nat) \<noteq> 215)")
  case True
  then have l: "lower_char c = char_of ((of_char c :: nat) + 32)"
    by (simp add: lower_char_def Let_def)
  have "(of_char c :: nat) + 32 < 256" using True by arith
  then have m: "((of_char c :: nat) + 32) mod 256 = of_char c + 32" by simp
  have v: "(of_char (lower_char c) :: nat) = of_char c + 32"
    unfolding l using m by (simp add: of_char_of take_bit_eq_mod)
  show ?thesis
  proof
    assume "lower_char c = x"
    then have "(of_char c :: nat) + 32 = n + 32" using v assms(1) by simp
    then show "c = x \<or> (of_char c :: nat) = n" by simp
  next
    assume "c = x \<or> (of_char c :: nat) = n"
    then show "lower_char c = x"
    proof
      assume "c = x"
      then have "(of_char c :: nat) = n + 32" using assms(1) by simp
      then have False using True assms(2,3) by arith
      then show ?thesis ..
    next
      assume "(of_char c :: nat) = n"
      then have "(of_char (lower_char c) :: nat) = of_char x" using v assms(1) by simp
      then show ?thesis by (rule of_char_inj)
    qed
  qed
next
  case False
  then have l: "lower_char c = c"
    by (auto simp: lower_char_def Let_def)
  have "(of_char c :: nat) \<noteq> n" using False assms by arith
  then show ?thesis using l by auto
qed

lemma str_lower_true_iff:
  "str_lower v = ''true'' \<longleftrightarrow>
     (\<exists>a b c d. v = [a, b, c, d] \<and> (a = CHR ''t'' \<or> a = CHR ''T'') \<and>
        (b = CHR ''r'' \<or> b = CHR ''R'') \<and> (c = CHR ''u'' \<or> c = CHR ''U'') \<and>
        (d = CHR ''e'' \<or> d = CHR ''E''))"
proof -
  have t: "lower_char a = CHR ''t'' \<longleftrightarrow> a = CHR ''t'' \<or> a = CHR ''T''" for a
    using lower_char_ascii_letter [of "CHR ''t''" 84 a] of_char_inj [of a "CHR ''T''"] by auto
  have r: "lower_char a = CHR ''r'' \<longleftrightarrow> a = CHR ''r'' \<or> a = CHR ''R''" for a
    using lower_char_ascii_letter [of "CHR ''r''" 82 a] of_char_inj [of a "CHR ''R''"] by auto
  have u: "lower_char a = CHR ''u'' \<longleftrightarrow> a = CHR ''u'' \<or> a = CHR ''U''" for a
    using lower_char_ascii_letter [of "CHR ''u''" 85 a] of_char_inj [of a "CHR ''U''"] by auto
  have e: "lower_char a = CHR ''e'' \<longleftrightarrow> a = CHR ''e'' \<or> a = CHR ''E''" for a
    using lower_char_ascii_letter [of "CHR ''e''" 69 a] of_char_inj [of a "CHR ''E''"] by auto
  have "str_lower v = ''true'' \<longleftrightarrow>
      (\<exists>a b c d. v = [a, b, c, d] \<and> lower_char a = CHR ''t'' \<and> lower_char b = CHR ''r'' \<and>
         lower_char c = CHR ''u'' \<and> lower_char d = CHR ''e'')"
    unfolding str_lower_def by (auto simp: map_eq_Cons_conv)
  then show ?thesis
    unfolding t r u e .
qed


text \<open>
  C5. For a boolean option and any string value, the processed value is true exactly
  when the lowercased value is \<^verbatim>\<open>true\<close>, that is, when the value is one of the
  sixteen spellings of that word in upper and lower case; every other string gives
  false. The directive is accepted either way: the options change at that key only and
  no error is added.
\<close>

theorem bool_option_true_iff_lower_true:
  assumes "custom_type d = ''fava-option''"
    and "custom_values d = v0 # v1 # vs"
    and "vt_value v0 = PyStr k" and "k \<in> set BOOL_OPTS"
    and "vt_value v1 = PyStr v"
  shows
    "process_value k (Some v) = Inr (PyBool (str_lower v = ''true''))
     \<and> parse_options re_ok (pre @ [d]) =
         map_sum id (\<lambda>(opts, errs). (opts(k \<mapsto> PyBool (str_lower v = ''true'')), errs))
           (parse_options re_ok pre)
     \<and> (str_lower v = ''true'' \<longleftrightarrow>
          (\<exists>a b c d. v = [a, b, c, d] \<and> (a = CHR ''t'' \<or> a = CHR ''T'') \<and>
             (b = CHR ''r'' \<or> b = CHR ''R'') \<and> (c = CHR ''u'' \<or> c = CHR ''U'') \<and>
             (d = CHR ''e'' \<or> d = CHR ''E'')))"
proof (intro conjI)
  show "process_value k (Some v) = Inr (PyBool (str_lower v = ''true''))"
    using assms(4) BOOL_OPTS_facts(4) [OF assms(4)] by (simp add: process_value_def)
  have "parse_entries re_ok [d] opts errs =
          Inr (opts(k \<mapsto> PyBool (str_lower v = ''true'')), errs)" for opts errs
    using assms(1) try_body_bool [OF assms(2-5)] by simp
  then show "parse_options re_ok (pre @ [d]) =
         map_sum id (\<lambda>(opts, errs). (opts(k \<mapsto> PyBool (str_lower v = ''true'')), errs))
           (parse_options re_ok pre)"
    by (cases "parse_options re_ok pre") (auto simp: parse_options_snoc)
  show "str_lower v = ''true'' \<longleftrightarrow>
          (\<exists>a b c d. v = [a, b, c, d] \<and> (a = CHR ''t'' \<or> a = CHR ''T'') \<and>
             (b = CHR ''r'' \<or> b = CHR ''R'') \<and> (c = CHR ''u'' \<or> c = CHR ''U'') \<and>
             (d = CHR ''e'' \<or> d = CHR ''E''))"
    by (rule str_lower_true_iff)
qed

theorem bool_option_true_iff_lower_true_witness:
  "''auto-reload'' \<in> set BOOL_OPTS
   \<and> parse_options only_paren_invalid ([] @ [fava_option 1 [PyStr ''auto-reload'', PyStr ''TRUE'']])
       = Inr (DEFAULTS(''auto-reload'' \<mapsto> PyBool True), [])
   \<and> parse_options only_paren_invalid ([] @ [fava_option 1 [PyStr ''auto-reload'', PyStr ''True'']])
       = Inr (DEFAULTS(''auto-reload'' \<mapsto> PyBool True), [])
   \<and> parse_options only_paren_invalid ([] @ [fava_option 1 [PyStr ''auto-reload'', PyStr ''true'']])
       = Inr (DEFAULTS(''auto-reload'' \<mapsto> PyBool True), [])
   \<and> parse_options only_paren_invalid
         ([] @ [fava_option 1 [PyStr ''show-accounts-with-zero-balance'', PyStr ''false'']])
       = Inr (DEFAULTS(''show-accounts-with-zero-balance'' \<mapsto> PyBool False), [])
   \<and> parse_options only_paren_invalid
         ([] @ [fava_option 1 [PyStr ''show-accounts-with-zero-balance'', PyStr ''yes'']])
       = Inr (DEFAULTS(''show-accounts-with-zero-balance'' \<mapsto> PyBool False), [])"
proof -
  have t: "custom_type (fava_option 1 [PyStr k, PyStr v]) = ''fava-option''" for k v
    by (simp add: fava_option_def custom_at_def)
  have vs: "custom_values (fava_option 1 [PyStr k, PyStr v]) =
      ValueType (PyStr k) ''str'' # ValueType (PyStr v) ''str'' # []" for k v
    by (simp add: fava_option_def custom_at_def type_name_def)
  have k1: "''auto-reload'' \<in> set BOOL_OPTS" and
    k2: "''show-accounts-with-zero-balance'' \<in> set BOOL_OPTS"
    by (simp_all add: BOOL_OPTS_def)
  have nil: "parse_options only_paren_invalid [] = Inr (DEFAULTS, [])"
    by (simp add: parse_options_def)
  have l: "str_lower ''TRUE'' = ''true''" "str_lower ''True'' = ''true''"
    "str_lower ''true'' = ''true''" "str_lower ''false'' \<noteq> ''true''"
    "str_lower ''yes'' \<noteq> ''true''"
    by code_simp+
  have step: "k \<in> set BOOL_OPTS \<Longrightarrow>
      parse_options only_paren_invalid ([] @ [fava_option 1 [PyStr k, PyStr v]]) =
      Inr (DEFAULTS(k \<mapsto> PyBool (str_lower v = ''true'')), [])" for k v
    using bool_option_true_iff_lower_true [where d = "fava_option 1 [PyStr k, PyStr v]"
        and re_ok = only_paren_invalid and pre = "[]" and k = k and v = v, OF t vs]
    by (simp add: nil)
  show ?thesis
    using k1 step [OF k1, of "''TRUE''"] step [OF k1, of "''True''"] step [OF k1, of "''true''"]
      step [OF k2, of "''false''"] step [OF k2, of "''yes''"] l
    by simp
qed

section \<open>No directive, and the keys of the result\<close>

lemma parse_entries_no_marker:
  "\<forall>e \<in> set es. custom_type e \<noteq> ''fava-option'' \<Longrightarrow>
     parse_entries re_ok es opts errs = Inr (opts, errs)"
  by (induction es) auto

text \<open>
  C7. Without any entry that carries the marker \<^verbatim>\<open>fava-option\<close>, and so for the
  empty sequence, the result is the table of defaults, nested lists included, and no
  error.
\<close>

theorem no_fava_option_returns_defaults:
  assumes "\<forall>e \<in> set es. custom_type e \<noteq> ''fava-option''"
  shows "parse_options re_ok es = Inr (DEFAULTS, [])"
  using assms by (simp add: parse_options_def parse_entries_no_marker)

theorem no_fava_option_returns_defaults_witness:
  "parse_options only_paren_invalid [] = Inr (DEFAULTS, [])
   \<and> parse_options only_paren_invalid
        [custom_at ''main.beancount'' 3 ''budget'' [PyStr ''Expenses:Food'', PyStr ''monthly''],
         custom_at ''main.beancount'' 4 ''fava-extension'' [PyStr ''auto_commit'']] =
       Inr (DEFAULTS, [])"
  using no_fava_option_returns_defaults [of "[]" only_paren_invalid]
    no_fava_option_returns_defaults [of
      "[custom_at ''main.beancount'' 3 ''budget'' [PyStr ''Expenses:Food'', PyStr ''monthly''],
        custom_at ''main.beancount'' 4 ''fava-extension'' [PyStr ''auto_commit'']]"
      only_paren_invalid]
  by (simp add: custom_at_def)

text \<open>A directive changes the options at its own key or not at all.\<close>

lemma store_processed_effect:
  "snd (store_processed k val opts) = opts \<or> (\<exists>v. snd (store_processed k val opts) = opts(k \<mapsto> v))"
  by (auto simp: store_processed_def list_append_def split: sum.splits option.splits pyval.splits)

lemma list_append_effect:
  "snd (list_append k x opts) = opts \<or> (\<exists>v. snd (list_append k x opts) = opts(k \<mapsto> v))"
  by (auto simp: list_append_def split: option.splits pyval.splits)

lemma try_body_effect:
  "snd (try_body re_ok e opts) = opts \<or>
   (\<exists>v0 vs key v. custom_values e = v0 # vs \<and> vt_value v0 = PyStr key \<and>
      DEFAULTS key \<noteq> None \<and> snd (try_body re_ok e opts) = opts(key \<mapsto> v))"
proof (cases "custom_values e")
  case Nil
  then show ?thesis by (simp add: try_body_def)
next
  case (Cons v0 vs)
  show ?thesis
  proof (cases "\<exists>key. vt_value v0 = PyStr key \<and> DEFAULTS key \<noteq> None")
    case False
    then have "snd (try_body re_ok e opts) = opts" using Cons
      by (cases "vt_value v0") (auto simp: try_body_def)
    then show ?thesis ..
  next
    case True
    then obtain key where key: "vt_value v0 = PyStr key" "DEFAULTS key \<noteq> None"
      by blast
    have "snd (try_body re_ok e opts) = opts \<or>
        (\<exists>v. snd (try_body re_ok e opts) = opts(key \<mapsto> v))"
    proof -
      consider (kfile) "key = ''default-file''"
        | (kinsert) "key \<noteq> ''default-file''" "key = ''insert-entry''"
        | (kgeneric) "key \<noteq> ''default-file''" "key \<noteq> ''insert-entry''"
        by blast
      then show ?thesis
      proof cases
        case kfile
        show ?thesis
        proof (cases "meta e ''filename''")
          case None
          then show ?thesis using Cons key kfile by (auto simp: try_body_def)
        next
          case (Some f)
          have "try_body re_ok e opts = store_processed key None (opts(key \<mapsto> f))"
            using Cons key kfile Some by (auto simp: try_body_def)
          then show ?thesis
            using store_processed_effect [of key None "opts(key \<mapsto> f)"] by auto
        qed
      next
        case kgeneric
        show ?thesis
        proof (cases vs)
          case Nil
          then show ?thesis using Cons key kgeneric by (auto simp: try_body_def)
        next
          case vs: (Cons v1 vs')
          show ?thesis
          proof (cases "\<exists>v. vt_value v1 = PyStr v")
            case True
            then obtain v where "vt_value v1 = PyStr v" ..
            then have "try_body re_ok e opts = store_processed key (Some v) opts"
              using Cons vs key kgeneric by (auto simp: try_body_def)
            then show ?thesis using store_processed_effect [of key "Some v" opts] by simp
          next
            case False
            then show ?thesis using Cons vs key kgeneric
              by (cases "vt_value v1") (auto simp: try_body_def)
          qed
        qed
      next
        case kinsert
        show ?thesis
        proof (cases vs)
          case Nil
          then show ?thesis using Cons key kinsert by (auto simp: try_body_def)
        next
          case vs: (Cons v1 vs')
          show ?thesis
          proof (cases "re_compile re_ok (vt_value v1)")
            case (Inl x)
            then show ?thesis using Cons vs key kinsert by (auto simp: try_body_def)
          next
            case (Inr pat)
            show ?thesis
            proof (cases "meta e ''filename''")
              case None
              then show ?thesis using Cons vs key kinsert Inr by (auto simp: try_body_def)
            next
              case f: (Some f)
              show ?thesis
              proof (cases "meta e ''lineno''")
                case None
                then show ?thesis using Cons vs key kinsert Inr f by (auto simp: try_body_def)
              next
                case l: (Some l)
                obtain r opts1 where la:
                  "list_append key (InsertEntryOption (date e) pat f l) opts = (r, opts1)"
                  by (cases "list_append key (InsertEntryOption (date e) pat f l) opts")
                then have d1: "opts1 = opts \<or> (\<exists>v. opts1 = opts(key \<mapsto> v))"
                  using list_append_effect [of key "InsertEntryOption (date e) pat f l" opts]
                  by simp
                show ?thesis
                proof (cases r)
                  case (Some x)
                  then have "snd (try_body re_ok e opts) = opts1"
                    using Cons vs key kinsert Inr f l la by (auto simp: try_body_def)
                  then show ?thesis using d1 by auto
                next
                  case None
                  then have "try_body re_ok e opts = store_processed key None opts1"
                    using Cons vs key kinsert Inr f l la by (auto simp: try_body_def)
                  then show ?thesis
                    using store_processed_effect [of key None opts1] d1 by auto
                qed
              qed
            qed
          qed
        qed
      qed
    qed
    then show ?thesis using Cons key by auto
  qed
qed

lemma try_body_dom:
  assumes "dom DEFAULTS \<subseteq> dom opts"
  shows "dom (snd (try_body re_ok e opts)) = dom opts"
proof -
  consider "snd (try_body re_ok e opts) = opts"
    | key v where "DEFAULTS key \<noteq> None" "snd (try_body re_ok e opts) = opts(key \<mapsto> v)"
    using try_body_effect [of re_ok e opts] by blast
  then show ?thesis
  proof cases
    case 1
    then show ?thesis by simp
  next
    case 2
    then have "key \<in> dom opts" using assms by auto
    then show ?thesis using 2(2) by auto
  qed
qed

lemma parse_entries_dom:
  "dom DEFAULTS \<subseteq> dom opts \<Longrightarrow> parse_entries re_ok es opts errs = Inr (opts', errs') \<Longrightarrow>
     dom opts' = dom opts"
proof (induction es arbitrary: opts errs)
  case Nil
  then show ?case by simp
next
  case (Cons e es)
  obtain r opts1 where tb: "try_body re_ok e opts = (r, opts1)"
    by (cases "try_body re_ok e opts")
  then have d1: "dom opts1 = dom opts"
    using try_body_dom [OF Cons.prems(1), of re_ok e] by simp
  then have s1: "dom DEFAULTS \<subseteq> dom opts1" using Cons.prems(1) by simp
  show ?case
  proof (cases "custom_type e = ''fava-option''")
    case False
    then show ?thesis using Cons.prems(2) Cons.IH [OF Cons.prems(1)] by simp
  next
    case True
    then show ?thesis
      using Cons.prems(2) tb d1 Cons.IH [OF s1]
      by (cases r) (auto split: if_splits)
  qed
qed

text \<open>
  C9. Whatever the entries are, the options that \<^verbatim>\<open>parse_options\<close> returns have
  the keys of \<^verbatim>\<open>DEFAULTS\<close>, no more and no fewer.
\<close>

theorem parse_options_keys:
  assumes "parse_options re_ok es = Inr (opts, errs)"
  shows "dom opts = dom DEFAULTS"
  using assms parse_entries_dom [of DEFAULTS re_ok es "[]" opts errs]
  by (simp add: parse_options_def)

theorem parse_options_keys_witness:
  "parse_options only_paren_invalid
     [fava_option 1 [PyStr ''currency-column'', PyStr ''80''],
      fava_option 2 [PyStr ''not-a-real-option'', PyStr ''x''],
      fava_option 3 [PyStr ''collapse-pattern'', PyStr ''.*:Old'']] =
     Inr (DEFAULTS(''currency-column'' \<mapsto> PyInt 80,
            ''collapse-pattern'' \<mapsto> PyList [PyStr ''.*:Old'']),
          [failed_to_parse (fava_option 2 [PyStr ''not-a-real-option'', PyStr ''x''])])
   \<and> dom (DEFAULTS(''currency-column'' \<mapsto> PyInt 80,
            ''collapse-pattern'' \<mapsto> PyList [PyStr ''.*:Old''])) = dom DEFAULTS"
proof -
  have run: "parse_options only_paren_invalid
     [fava_option 1 [PyStr ''currency-column'', PyStr ''80''],
      fava_option 2 [PyStr ''not-a-real-option'', PyStr ''x''],
      fava_option 3 [PyStr ''collapse-pattern'', PyStr ''.*:Old'']] =
     Inr (DEFAULTS(''currency-column'' \<mapsto> PyInt 80,
            ''collapse-pattern'' \<mapsto> PyList [PyStr ''.*:Old'']),
          [failed_to_parse (fava_option 2 [PyStr ''not-a-real-option'', PyStr ''x''])])"
    by (simp add: parse_options_def fava_option_def custom_at_def type_name_def try_body_def
        DEFAULTS_def DEFAULTS_items_def store_processed_def process_value_def STR_OPTS_def
        BOOL_OPTS_def INT_OPTS_def MULTI_OPTS_def py_int_def is_digit_def int_space_def
        list_append_def caught_def)
  show ?thesis
    using run parse_options_keys [OF run] by simp
qed

section \<open>The option default-file\<close>

lemma default_file_key: "DEFAULTS ''default-file'' = Some PyNone"
  by (simp add: DEFAULTS_def DEFAULTS_items_def)

lemma process_value_default_file: "process_value ''default-file'' val = Inr PyNone"
  by (simp add: process_value_def STR_OPTS_def BOOL_OPTS_def INT_OPTS_def LIST_OPTS_def)

lemma try_body_default_file:
  assumes "custom_values d = v0 # vs" and "vt_value v0 = PyStr ''default-file''"
    and "meta d ''filename'' = Some f"
  shows "try_body re_ok d opts = (None, opts(''default-file'' \<mapsto> f))"
  using assms
  by (simp add: try_body_def default_file_key store_processed_def process_value_default_file)

text \<open>
  C10. A \<^verbatim>\<open>default-file\<close> directive is accepted whatever follows its key, nothing
  included: the option becomes the file name of the directive's metadata, no error is
  added, and the values after the key play no part in the result.
\<close>

theorem default_file_needs_no_value:
  assumes "custom_type d = ''fava-option''"
    and "custom_values d = v0 # vs"
    and "vt_value v0 = PyStr ''default-file''"
    and "meta d ''filename'' = Some f"
  shows
    "parse_options re_ok (pre @ [d]) =
       map_sum id (\<lambda>(opts, errs). (opts(''default-file'' \<mapsto> f), errs))
         (parse_options re_ok pre)
     \<and> (\<forall>vs'. parse_options re_ok (pre @ [d\<lparr>custom_values := v0 # vs'\<rparr>]) =
                parse_options re_ok (pre @ [d]))"
proof -
  have one: "parse_entries re_ok [d\<lparr>custom_values := v0 # vs'\<rparr>] opts errs =
          Inr (opts(''default-file'' \<mapsto> f), errs)" for opts errs vs'
    using assms(1)
      try_body_default_file [of "d\<lparr>custom_values := v0 # vs'\<rparr>" v0 vs' f re_ok opts]
      assms(3,4)
    by simp
  have d: "d\<lparr>custom_values := v0 # vs\<rparr> = d" using assms(2) by simp
  have all: "parse_options re_ok (pre @ [d\<lparr>custom_values := v0 # vs'\<rparr>]) =
       map_sum id (\<lambda>(opts, errs). (opts(''default-file'' \<mapsto> f), errs))
         (parse_options re_ok pre)" for vs'
    using one [of vs']
    by (cases "parse_options re_ok pre") (auto simp: parse_options_snoc)
  show ?thesis
    using all [of vs] all unfolding d by simp
qed

theorem default_file_needs_no_value_witness:
  "custom_type (fava_option 7 [PyStr ''default-file'']) = ''fava-option''
   \<and> custom_values (fava_option 7 [PyStr ''default-file'']) =
       [ValueType (PyStr ''default-file'') ''str'']
   \<and> meta (fava_option 7 [PyStr ''default-file'']) ''filename'' = Some (PyStr ''main.beancount'')
   \<and> parse_options only_paren_invalid ([] @ [fava_option 7 [PyStr ''default-file'']]) =
       Inr (DEFAULTS(''default-file'' \<mapsto> PyStr ''main.beancount''), [])"
proof -
  let ?d = "fava_option 7 [PyStr ''default-file'']"
  have t: "custom_type ?d = ''fava-option''"
    by (simp add: fava_option_def custom_at_def)
  have vs: "custom_values ?d = ValueType (PyStr ''default-file'') ''str'' # []"
    by (simp add: fava_option_def custom_at_def type_name_def)
  have m: "meta ?d ''filename'' = Some (PyStr ''main.beancount'')"
    by (simp add: fava_option_def custom_at_def)
  have nil: "parse_options only_paren_invalid [] = Inr (DEFAULTS, [])"
    by (simp add: parse_options_def)
  show ?thesis
    using default_file_needs_no_value [where d = ?d and re_ok = only_paren_invalid
        and pre = "[]", OF t vs _ m] t vs m nil
    by simp
qed

section \<open>The order of the directives\<close>

lemma try_body_other_key:
  assumes "\<not> names_key k e" and "custom_type e = ''fava-option''"
  shows "snd (try_body re_ok e opts) k = opts k"
  using try_body_effect [of re_ok e opts] assms
  by (auto simp: names_key_def)

lemma try_body_no_string_value:
  assumes "string_value e = None"
    and "custom_values e = v0 # vs" and "vt_value v0 = PyStr k"
    and "k \<noteq> ''default-file''" and "k \<noteq> ''insert-entry''"
  shows "snd (try_body re_ok e opts) = opts"
proof (cases vs)
  case Nil
  then show ?thesis using assms by (auto simp: try_body_def)
next
  case (Cons v1 vs')
  then have "\<And>v. vt_value v1 \<noteq> PyStr v"
    using assms(1,2) by (auto simp: string_value_def split: pyval.splits)
  then show ?thesis using assms Cons
    by (cases "vt_value v1") (auto simp: try_body_def)
qed

lemma parse_entries_other_keys:
  assumes "\<forall>e \<in> set es. names_key k e \<longrightarrow> string_value e = None"
    and "k \<noteq> ''default-file''" and "k \<noteq> ''insert-entry''"
    and "parse_entries re_ok es opts errs = Inr (opts', errs')"
  shows "opts' k = opts k"
  using assms
proof (induction es arbitrary: opts errs)
  case Nil
  then show ?case by simp
next
  case (Cons e es)
  show ?case
  proof (cases "custom_type e = ''fava-option''")
    case False
    then show ?thesis using Cons by simp
  next
    case True
    obtain r opts1 where tb: "try_body re_ok e opts = (r, opts1)"
      by (cases "try_body re_ok e opts")
    have same: "opts1 k = opts k"
    proof (cases "names_key k e")
      case False
      then show ?thesis using try_body_other_key [OF False True, of re_ok opts] tb by simp
    next
      case nk: True
      then obtain v0 vs where "custom_values e = v0 # vs" "vt_value v0 = PyStr k"
        by (auto simp: names_key_def split: list.splits)
      moreover have "string_value e = None" using Cons.prems(1) nk by simp
      ultimately show ?thesis
        using try_body_no_string_value [of e v0 vs k re_ok opts] Cons.prems(2,3) tb by simp
    qed
    have rest: "\<exists>errs1. parse_entries re_ok es opts1 errs1 = Inr (opts', errs')"
      using Cons.prems(4) True tb by (cases r) (auto split: if_splits)
    then obtain errs1 where "parse_entries re_ok es opts1 errs1 = Inr (opts', errs')" ..
    then have "opts' k = opts1 k"
      using Cons.IH [of opts1 errs1] Cons.prems(1-3) by simp
    then show ?thesis using same by simp
  qed
qed

lemma typed_key_facts:
  assumes "k \<in> set (STR_OPTS @ BOOL_OPTS @ INT_OPTS @ LIST_OPTS)"
  shows "DEFAULTS k \<noteq> None" and "k \<noteq> ''default-file''" and "k \<noteq> ''insert-entry''"
proof -
  have "k \<in> set STR_OPTS \<or> k \<in> set BOOL_OPTS \<or> k \<in> set INT_OPTS \<or> k \<in> set LIST_OPTS"
    using assms by auto
  then have
    "k = ''collapse-pattern'' \<or> k = ''fiscal-year-end'' \<or> k = ''import-config'' \<or>
     k = ''interval'' \<or> k = ''language'' \<or> k = ''locale'' \<or> k = ''unrealized'' \<or>
     k \<in> set BOOL_OPTS \<or> k \<in> set INT_OPTS \<or>
     k = ''conversion-currencies'' \<or> k = ''import-dirs'' \<or> k = ''journal-show'' \<or>
     k = ''journal-show-document'' \<or> k = ''journal-show-transaction''"
    by (simp add: STR_OPTS_def LIST_OPTS_def)
  then show "DEFAULTS k \<noteq> None" and "k \<noteq> ''default-file''" and "k \<noteq> ''insert-entry''"
    using BOOL_OPTS_facts(1-3) [of k] INT_OPTS_facts(1-3) [of k]
    unfolding DEFAULTS_eq_None
    by (elim disjE; simp add: option_keys_def DEFAULTS_items_def)+
qed

lemma process_value_typed:
  assumes "k \<in> set (STR_OPTS @ BOOL_OPTS @ INT_OPTS @ LIST_OPTS)"
    and "process_value k (Some v) = Inr pv"
  shows "pv \<noteq> PyNone"
  using assms by (auto simp: process_value_def split: if_splits option.splits)

lemma names_key_values:
  assumes "names_key k d" and "string_value d = Some v"
  obtains v0 v1 vs where "custom_values d = v0 # v1 # vs" and "vt_value v0 = PyStr k"
    and "vt_value v1 = PyStr v"
  using assms
  by (auto simp: names_key_def string_value_def split: list.splits pyval.splits)

lemma try_body_accepted:
  assumes "names_key k d" and "string_value d = Some v"
    and "k \<in> set (STR_OPTS @ BOOL_OPTS @ INT_OPTS @ LIST_OPTS)"
  shows "try_body re_ok d opts = store_processed k (Some v) opts"
proof -
  obtain v0 v1 vs where "custom_values d = v0 # v1 # vs" "vt_value v0 = PyStr k"
    "vt_value v1 = PyStr v"
    using assms(1,2) by (rule names_key_values)
  then show ?thesis
    using typed_key_facts [OF assms(3)] by (intro try_body_generic) auto
qed

lemma parse_entries_last_value:
  assumes "k \<in> set (STR_OPTS @ BOOL_OPTS @ INT_OPTS @ LIST_OPTS)" and "k \<notin> set MULTI_OPTS"
    and "names_key k d" and "string_value d = Some v"
    and "process_value k (Some v) = Inr pv"
    and "\<forall>e \<in> set post. names_key k e \<longrightarrow> string_value e = None"
    and "parse_entries re_ok (d # post) opts errs = Inr (opts', errs')"
  shows "opts' k = Some pv"
proof -
  have "try_body re_ok d opts = (None, opts(k \<mapsto> pv))"
    using try_body_accepted [OF assms(3,4,1), of re_ok opts] assms(2,5)
      process_value_typed [OF assms(1,5)]
    by (simp add: store_processed_def)
  moreover have "custom_type d = ''fava-option''"
    using assms(3) by (simp add: names_key_def)
  ultimately have "parse_entries re_ok post (opts(k \<mapsto> pv)) errs = Inr (opts', errs')"
    using assms(7) by simp
  then have "opts' k = (opts(k \<mapsto> pv)) k"
    using parse_entries_other_keys [OF assms(6) typed_key_facts(2,3) [OF assms(1)]]
    by blast
  then show ?thesis by simp
qed

lemma MULTI_OPTS_facts:
  assumes "k \<in> set MULTI_OPTS"
  shows "k \<in> set (STR_OPTS @ BOOL_OPTS @ INT_OPTS @ LIST_OPTS)"
    and "process_value k (Some v) = Inr (PyStr v)"
  using assms by (simp_all add: MULTI_OPTS_def STR_OPTS_def process_value_def)

lemma accepted_values_Cons:
  "accepted_values k (e # es) =
     (if names_key k e then (case string_value e of None \<Rightarrow> [] | Some v \<Rightarrow> [v]) else [])
     @ accepted_values k es"
  by (simp add: accepted_values_def List.map_filter_simps split: option.splits)

lemma parse_entries_multi:
  assumes "k \<in> set MULTI_OPTS"
    and "opts k = Some (PyList xs)"
    and "parse_entries re_ok es opts errs = Inr (opts', errs')"
  shows "opts' k = Some (PyList (xs @ map PyStr (accepted_values k es)))"
  using assms(2,3)
proof (induction es arbitrary: opts errs xs)
  case Nil
  then show ?case by (simp add: accepted_values_def List.map_filter_simps)
next
  case (Cons e es)
  note typed = MULTI_OPTS_facts(1) [OF assms(1)]
  show ?case
  proof (cases "custom_type e = ''fava-option''")
    case False
    then have "\<not> names_key k e" by (simp add: names_key_def)
    then show ?thesis using False Cons by (simp add: accepted_values_Cons)
  next
    case True
    obtain r opts1 where tb: "try_body re_ok e opts = (r, opts1)"
      by (cases "try_body re_ok e opts")
    have rest: "\<exists>errs1. parse_entries re_ok es opts1 errs1 = Inr (opts', errs')"
      using Cons.prems(2) True tb by (cases r) (auto split: if_splits)
    then obtain errs1 where run: "parse_entries re_ok es opts1 errs1 = Inr (opts', errs')" ..
    let ?here = "if names_key k e then (case string_value e of None \<Rightarrow> [] | Some v \<Rightarrow> [v])
      else []"
    have "opts1 k = Some (PyList (xs @ map PyStr ?here))"
    proof (cases "names_key k e")
      case False
      then show ?thesis
        using try_body_other_key [OF False True, of re_ok opts] tb Cons.prems(1) by simp
    next
      case nk: True
      show ?thesis
      proof (cases "string_value e")
        case None
        obtain v0 vs where "custom_values e = v0 # vs" "vt_value v0 = PyStr k"
          using nk by (auto simp: names_key_def split: list.splits)
        then show ?thesis
          using try_body_no_string_value [of e v0 vs k re_ok opts] None nk tb Cons.prems(1)
            typed_key_facts(2,3) [OF typed]
          by simp
      next
        case (Some v)
        have "try_body re_ok e opts = store_processed k (Some v) opts"
          using nk Some typed by (rule try_body_accepted)
        then show ?thesis
          using tb nk Some Cons.prems(1) assms(1) MULTI_OPTS_facts(2) [OF assms(1), of v]
          by (simp add: store_processed_def list_append_def)
      qed
    qed
    then have "opts' k = Some (PyList ((xs @ map PyStr ?here) @ map PyStr (accepted_values k es)))"
      using run by (rule Cons.IH)
    then show ?thesis by (simp add: accepted_values_Cons)
  qed
qed

text \<open>
  C6. Directives take effect in the order of the input. First conjunct: for a key with a
  type that is not repeatable, the resolved value is the processed value of the last
  directive that names the key with a string value, whatever stands before it and
  whatever directives for other keys stand after it. Second conjunct: for a repeatable
  key, the resolved value is the default list followed by the values of all the
  directives that name the key with a string value, in input order.
\<close>

theorem directives_applied_in_input_order:
  "(\<forall>k d v pv pre post opts errs.
      k \<in> set (STR_OPTS @ BOOL_OPTS @ INT_OPTS @ LIST_OPTS) \<longrightarrow> k \<notin> set MULTI_OPTS \<longrightarrow>
      names_key k d \<longrightarrow> string_value d = Some v \<longrightarrow> process_value k (Some v) = Inr pv \<longrightarrow>
      (\<forall>e \<in> set post. names_key k e \<longrightarrow> string_value e = None) \<longrightarrow>
      parse_options re_ok (pre @ d # post) = Inr (opts, errs) \<longrightarrow>
      opts k = Some pv)
   \<and> (\<forall>k es opts errs default_list.
      k \<in> set MULTI_OPTS \<longrightarrow> DEFAULTS k = Some (PyList default_list) \<longrightarrow>
      parse_options re_ok es = Inr (opts, errs) \<longrightarrow>
      opts k = Some (PyList (default_list @ map PyStr (accepted_values k es))))"
proof (intro conjI allI impI)
  fix k d v pv pre post opts errs
  assume k: "k \<in> set (STR_OPTS @ BOOL_OPTS @ INT_OPTS @ LIST_OPTS)" "k \<notin> set MULTI_OPTS"
    and d: "names_key k d" "string_value d = Some v" "process_value k (Some v) = Inr pv"
    and post: "\<forall>e \<in> set post. names_key k e \<longrightarrow> string_value e = None"
    and run: "parse_options re_ok (pre @ d # post) = Inr (opts, errs)"
  from run obtain opts1 errs1 where
    "parse_entries re_ok (d # post) opts1 errs1 = Inr (opts, errs)"
    by (cases "parse_options re_ok pre") (auto simp: parse_options_insert)
  with k d post show "opts k = Some pv"
    by (rule parse_entries_last_value)
next
  fix k es opts errs default_list
  assume "k \<in> set MULTI_OPTS" and "DEFAULTS k = Some (PyList default_list)"
    and "parse_options re_ok es = Inr (opts, errs)"
  then show "opts k = Some (PyList (default_list @ map PyStr (accepted_values k es)))"
    unfolding parse_options_def by (rule parse_entries_multi)
qed

theorem directives_applied_in_input_order_witness:
  "parse_options only_paren_invalid
     ([fava_option 1 [PyStr ''interval'', PyStr ''year''],
       fava_option 2 [PyStr ''collapse-pattern'', PyStr ''.*:Old'']]
      @ fava_option 3 [PyStr ''interval'', PyStr ''day'']
      # [fava_option 4 [PyStr ''collapse-pattern'', PyStr ''Assets:Cash'']]) =
     Inr (DEFAULTS(''interval'' \<mapsto> PyStr ''day'',
            ''collapse-pattern'' \<mapsto> PyList [PyStr ''.*:Old'', PyStr ''Assets:Cash'']), [])
   \<and> (DEFAULTS(''interval'' \<mapsto> PyStr ''day'',
            ''collapse-pattern'' \<mapsto> PyList [PyStr ''.*:Old'', PyStr ''Assets:Cash'']))
         ''interval'' = Some (PyStr ''day'')
   \<and> (DEFAULTS(''interval'' \<mapsto> PyStr ''day'',
            ''collapse-pattern'' \<mapsto> PyList [PyStr ''.*:Old'', PyStr ''Assets:Cash'']))
         ''collapse-pattern'' =
       Some (PyList ([] @ map PyStr [''.*:Old'', ''Assets:Cash'']))"
proof -
  let ?pre = "[fava_option 1 [PyStr ''interval'', PyStr ''year''],
       fava_option 2 [PyStr ''collapse-pattern'', PyStr ''.*:Old'']]"
  let ?d = "fava_option 3 [PyStr ''interval'', PyStr ''day'']"
  let ?post = "[fava_option 4 [PyStr ''collapse-pattern'', PyStr ''Assets:Cash'']]"
  let ?opts = "DEFAULTS(''interval'' \<mapsto> PyStr ''day'',
            ''collapse-pattern'' \<mapsto> PyList [PyStr ''.*:Old'', PyStr ''Assets:Cash''])"
  have run: "parse_options only_paren_invalid (?pre @ ?d # ?post) = Inr (?opts, [])"
    by (simp add: parse_options_def fava_option_def custom_at_def type_name_def try_body_def
        DEFAULTS_def DEFAULTS_items_def store_processed_def process_value_def STR_OPTS_def
        BOOL_OPTS_def INT_OPTS_def MULTI_OPTS_def list_append_def caught_def)
  have k1: "''interval'' \<in> set (STR_OPTS @ BOOL_OPTS @ INT_OPTS @ LIST_OPTS)"
    "''interval'' \<notin> set MULTI_OPTS"
    by (simp_all add: STR_OPTS_def MULTI_OPTS_def)
  have d: "names_key ''interval'' ?d" "string_value ?d = Some ''day''"
    "process_value ''interval'' (Some ''day'') = Inr (PyStr ''day'')"
    by (simp_all add: names_key_def string_value_def fava_option_def custom_at_def
        type_name_def process_value_def STR_OPTS_def)
  have post: "\<forall>e \<in> set ?post. names_key ''interval'' e \<longrightarrow> string_value e = None"
    by (simp add: names_key_def fava_option_def custom_at_def)
  have k2: "''collapse-pattern'' \<in> set MULTI_OPTS"
    "DEFAULTS ''collapse-pattern'' = Some (PyList [])"
    by (simp_all add: MULTI_OPTS_def DEFAULTS_def DEFAULTS_items_def)
  have acc: "accepted_values ''collapse-pattern'' (?pre @ ?d # ?post) =
      [''.*:Old'', ''Assets:Cash'']"
    by (simp add: accepted_values_def List.map_filter_simps names_key_def string_value_def
        fava_option_def custom_at_def type_name_def)
  note main = directives_applied_in_input_order [of only_paren_invalid]
  have "?opts ''interval'' = Some (PyStr ''day'')"
    using main [THEN conjunct1, THEN spec [of _ "''interval''"], THEN spec [of _ ?d],
        THEN spec [of _ "''day''"], THEN spec [of _ "PyStr ''day''"], THEN spec [of _ ?pre],
        THEN spec [of _ ?post], THEN spec [of _ ?opts], THEN spec [of _ "[]"]]
      k1 d post run
    by blast
  moreover have "?opts ''collapse-pattern'' =
      Some (PyList ([] @ map PyStr [''.*:Old'', ''Assets:Cash'']))"
    using main [THEN conjunct2, THEN spec [of _ "''collapse-pattern''"],
        THEN spec [of _ "?pre @ ?d # ?post"], THEN spec [of _ ?opts], THEN spec [of _ "[]"],
        THEN spec [of _ "[]"]]
      k2 run
    unfolding acc by blast
  ultimately show ?thesis using run by simp
qed

section \<open>The parser on the heap changes only objects of its own\<close>

lemma untouched_below_refl: "untouched_below n h h"
  by (simp add: untouched_below_def)

lemma untouched_below_trans:
  "untouched_below n h h1 \<Longrightarrow> untouched_below n h1 h2 \<Longrightarrow> untouched_below n h h2"
  by (auto simp: untouched_below_def)

lemma new_list_untouched:
  "n \<le> lim h \<Longrightarrow> untouched_below n h (snd (new_list xs h))"
  by (simp add: new_list_def untouched_below_def)

lemma dict_set_untouched:
  "n \<le> d \<Longrightarrow> untouched_below n h (dict_set d k c h)"
  by (simp add: dict_set_def untouched_below_def)

lemma set_list_refs: "set (list_refs items) = {a. \<exists>k. (k, ListRef a) \<in> set items}"
  by (induction items rule: list_refs.induct) auto

lemma list_refs_update_Val:
  "set (list_refs (AList.update k (Val v) items)) \<subseteq> set (list_refs items)"
  by (induction items rule: list_refs.induct) auto

lemma list_refs_update_ListRef:
  "set (list_refs (AList.update k (ListRef a) items)) \<subseteq> insert a (set (list_refs items))"
  by (induction items rule: list_refs.induct) auto

lemma dict_set_Val_owned:
  "owned_from n d h \<Longrightarrow> owned_from n d (dict_set d k (Val v) h)"
  using list_refs_update_Val [of k v "dicts h d"]
  by (auto simp: owned_from_def dict_set_def)

lemma dict_set_ListRef_owned:
  "owned_from n d h \<Longrightarrow> n \<le> a \<Longrightarrow> a < lim h \<Longrightarrow> owned_from n d (dict_set d k (ListRef a) h)"
  using list_refs_update_ListRef [of k a "dicts h d"]
  by (auto simp: owned_from_def dict_set_def)

lemma new_list_owned:
  "owned_from n d h \<Longrightarrow> owned_from n d (snd (new_list xs h))"
  by (auto simp: owned_from_def new_list_def less_Suc_eq)

lemma new_list_addr:
  "fst (new_list xs h) = lim h" "lim (snd (new_list xs h)) = Suc (lim h)"
  by (simp_all add: new_list_def)

lemma owned_from_lim: "owned_from n d h \<Longrightarrow> n \<le> lim h"
  by (simp add: owned_from_def)

lemma deepcopy_items_owned:
  assumes "owned_from n y h"
    and "\<forall>a a'. memo a = Some a' \<longrightarrow> n \<le> a' \<and> a' < lim h"
    and "deepcopy_items items y memo h = (memo', h')"
  shows "owned_from n y h' \<and> untouched_below n h h'"
  using assms
proof (induction items arbitrary: memo h)
  case Nil
  then show ?case by (simp add: untouched_below_refl)
next
  case (Cons item items)
  obtain k c where item: "item = (k, c)" by (cases item)
  have ny: "n \<le> y" using Cons.prems(1) by (simp add: owned_from_def)
  show ?case
  proof (cases c)
    case (Val v)
    let ?h1 = "dict_set y k (Val v) h"
    have run: "deepcopy_items items y memo ?h1 = (memo', h')"
      using Cons.prems(3) item Val by simp
    have o1: "owned_from n y ?h1" using Cons.prems(1) by (rule dict_set_Val_owned)
    have m1: "\<forall>a a'. memo a = Some a' \<longrightarrow> n \<le> a' \<and> a' < lim ?h1"
      using Cons.prems(2) by (simp add: dict_set_def)
    have "owned_from n y h' \<and> untouched_below n ?h1 h'"
      using o1 m1 run by (rule Cons.IH)
    then show ?thesis
      using dict_set_untouched [OF ny, of h k "Val v"] untouched_below_trans by blast
  next
    case (ListRef a)
    show ?thesis
    proof (cases "memo a")
      case (Some a')
      let ?h1 = "dict_set y k (ListRef a') h"
      have run: "deepcopy_items items y memo ?h1 = (memo', h')"
        using Cons.prems(3) item ListRef Some by simp
      have a': "n \<le> a'" "a' < lim h" using Cons.prems(2) Some by auto
      have o1: "owned_from n y ?h1"
        using Cons.prems(1) a' by (rule dict_set_ListRef_owned)
      have m1: "\<forall>a a'. memo a = Some a' \<longrightarrow> n \<le> a' \<and> a' < lim ?h1"
        using Cons.prems(2) by (simp add: dict_set_def)
      have "owned_from n y h' \<and> untouched_below n ?h1 h'"
        using o1 m1 run by (rule Cons.IH)
      then show ?thesis
        using dict_set_untouched [OF ny, of h k "ListRef a'"] untouched_below_trans by blast
    next
      case None
      let ?hn = "snd (new_list (lists h a) h)"
      let ?h1 = "dict_set y k (ListRef (lim h)) ?hn"
      have run: "deepcopy_items items y (memo(a \<mapsto> lim h)) ?h1 = (memo', h')"
        using Cons.prems(3) item ListRef None by (simp add: new_list_def)
      have nl: "n \<le> lim h" using Cons.prems(1) by (rule owned_from_lim)
      have on: "owned_from n y ?hn" using Cons.prems(1) by (rule new_list_owned)
      have o1: "owned_from n y ?h1"
        using on nl by (intro dict_set_ListRef_owned) (simp_all add: new_list_addr)
      have m1: "\<forall>b b'. (memo(a \<mapsto> lim h)) b = Some b' \<longrightarrow> n \<le> b' \<and> b' < lim ?h1"
        using Cons.prems(2) nl by (auto simp: dict_set_def new_list_def less_Suc_eq)
      have "owned_from n y h' \<and> untouched_below n ?h1 h'"
        using o1 m1 run by (rule Cons.IH)
      moreover have "untouched_below n h ?h1"
        using new_list_untouched [OF nl, of "lists h a"] dict_set_untouched [OF ny, of ?hn]
          untouched_below_trans by blast
      ultimately show ?thesis using untouched_below_trans by blast
    qed
  qed
qed

lemma deepcopy_owned:
  assumes "deepcopy x h = (y, h')"
  shows "y = lim h \<and> owned_from (lim h) y h' \<and> untouched_below (lim h) h h'"
proof -
  let ?h1 = "snd (new_dict [] h)"
  obtain memo where run: "deepcopy_items (dicts h x) (lim h) Map.empty ?h1 = (memo, h')"
    and y: "y = lim h"
    using assms by (auto simp: deepcopy_def new_dict_def split: prod.splits)
  have o1: "owned_from (lim h) (lim h) ?h1"
    by (simp add: owned_from_def new_dict_def)
  have "owned_from (lim h) (lim h) h' \<and> untouched_below (lim h) ?h1 h'"
    using o1 _ run by (rule deepcopy_items_owned) simp
  moreover have "untouched_below (lim h) h ?h1"
    by (simp add: untouched_below_def new_dict_def)
  ultimately show ?thesis using y untouched_below_trans by blast
qed

lemma list_append_heap_owned:
  assumes "owned_from n d h" and "list_append_heap d k x h = (r, h')"
  shows "owned_from n d h' \<and> untouched_below n h h'"
proof (cases "dict_get d k h")
  case None
  then show ?thesis using assms by (auto simp: list_append_heap_def untouched_below_refl)
next
  case (Some c)
  show ?thesis
  proof (cases c)
    case (Val v)
    then show ?thesis using assms Some
      by (auto simp: list_append_heap_def untouched_below_refl)
  next
    case (ListRef a)
    have "(k, ListRef a) \<in> set (dicts h d)"
      using Some ListRef by (auto simp: dict_get_def dest: map_of_SomeD)
    then have "a \<in> set (list_refs (dicts h d))"
      by (auto simp: set_list_refs)
    then have "n \<le> a" using assms(1) by (simp add: owned_from_def)
    moreover have "h' = h\<lparr>lists := (lists h)(a := lists h a @ [x])\<rparr>"
      using assms(2) Some ListRef by (simp add: list_append_heap_def)
    ultimately show ?thesis
      using assms(1) by (auto simp: owned_from_def untouched_below_def)
  qed
qed

lemma new_object_owned:
  assumes "owned_from n d h" and "new_object v h = (c, h1)"
  shows "owned_from n d h1 \<and> untouched_below n h h1 \<and>
         (\<forall>a. c = ListRef a \<longrightarrow> n \<le> a \<and> a < lim h1)"
proof (cases "\<exists>xs. v = PyList xs")
  case True
  then obtain xs where v: "v = PyList xs" ..
  then have c: "c = ListRef (lim h)" and h1: "h1 = snd (new_list xs h)"
    using assms(2) by (auto simp: new_object_def new_list_def)
  have nl: "n \<le> lim h" using assms(1) by (rule owned_from_lim)
  show ?thesis
    unfolding h1 c
    using new_list_owned [OF assms(1), of xs] new_list_untouched [OF nl, of xs] nl
    by (simp add: new_list_addr)
next
  case False
  then have "c = Val v" and "h1 = h"
    using assms(2) by (cases v; simp add: new_object_def)+
  then show ?thesis using assms(1) by (simp add: untouched_below_refl)
qed

lemma store_processed_heap_owned:
  assumes "owned_from n d h" and "store_processed_heap d k val h = (r, h')"
  shows "owned_from n d h' \<and> untouched_below n h h'"
proof (cases "process_value k val")
  case (Inl x)
  then show ?thesis using assms by (simp add: store_processed_heap_def untouched_below_refl)
next
  case (Inr pv)
  obtain c h1 where no: "new_object pv h = (c, h1)" by (cases "new_object pv h")
  note o1 = new_object_owned [OF assms(1) no]
  have nd: "n \<le> d" using assms(1) by (simp add: owned_from_def)
  consider (none) "pv = PyNone" | (multi) "pv \<noteq> PyNone" "k \<in> set MULTI_OPTS"
    | (single) "pv \<noteq> PyNone" "k \<notin> set MULTI_OPTS"
    by blast
  then show ?thesis
  proof cases
    case none
    then have "h' = h1" using assms(2) Inr no by (simp add: store_processed_heap_def)
    then show ?thesis using o1 by simp
  next
    case multi
    then have "list_append_heap d k pv h1 = (r, h')"
      using assms(2) Inr no by (simp add: store_processed_heap_def)
    then have "owned_from n d h' \<and> untouched_below n h1 h'"
      using o1 list_append_heap_owned by blast
    then show ?thesis using o1 untouched_below_trans by blast
  next
    case single
    then have h': "h' = dict_set d k c h1"
      using assms(2) Inr no by (simp add: store_processed_heap_def)
    have "owned_from n d (dict_set d k c h1)"
      using o1 dict_set_Val_owned dict_set_ListRef_owned by (cases c) auto
    moreover have "untouched_below n h1 (dict_set d k c h1)"
      using nd by (rule dict_set_untouched)
    ultimately show ?thesis unfolding h' using o1 untouched_below_trans by blast
  qed
qed

lemma try_body_heap_owned:
  assumes "owned_from n d h" and "try_body_heap re_ok g d e h = (r, h')"
  shows "owned_from n d h' \<and> untouched_below n h h'"
proof -
  note same = untouched_below_refl [of n h]
  have nd: "n \<le> d" using assms(1) by (simp add: owned_from_def)
  show ?thesis
  proof (cases "custom_values e")
    case Nil
    then show ?thesis using assms same by (simp add: try_body_heap_def)
  next
    case (Cons v0 vs)
    show ?thesis
    proof (cases "\<exists>key. vt_value v0 = PyStr key \<and> dict_get g key h \<noteq> None")
      case False
      then have "h' = h" using Cons assms(2)
        by (cases "vt_value v0") (auto simp: try_body_heap_def)
      then show ?thesis using assms(1) same by simp
    next
      case True
      then obtain key where key: "vt_value v0 = PyStr key" "dict_get g key h \<noteq> None"
        by blast
      consider (kfile) "key = ''default-file''"
        | (kinsert) "key \<noteq> ''default-file''" "key = ''insert-entry''"
        | (kgeneric) "key \<noteq> ''default-file''" "key \<noteq> ''insert-entry''"
        by blast
      then show ?thesis
      proof cases
        case kfile
        show ?thesis
        proof (cases "meta e ''filename''")
          case None
          then have "h' = h" using Cons key kfile assms(2) by (auto simp: try_body_heap_def)
          then show ?thesis using assms(1) same by simp
        next
          case (Some f)
          let ?h1 = "dict_set d key (Val f) h"
          have "store_processed_heap d key None ?h1 = (r, h')"
            using Cons key kfile Some assms(2) by (auto simp: try_body_heap_def)
          then have "owned_from n d h' \<and> untouched_below n ?h1 h'"
            using dict_set_Val_owned [OF assms(1)] store_processed_heap_owned by blast
          then show ?thesis
            using dict_set_untouched [OF nd, of h key "Val f"] untouched_below_trans by blast
        qed
      next
        case kgeneric
        show ?thesis
        proof (cases vs)
          case Nil
          then have "h' = h" using Cons key kgeneric assms(2)
            by (auto simp: try_body_heap_def)
          then show ?thesis using assms(1) same by simp
        next
          case vs: (Cons v1 vs')
          show ?thesis
          proof (cases "\<exists>v. vt_value v1 = PyStr v")
            case True
            then obtain v where "vt_value v1 = PyStr v" ..
            then have "store_processed_heap d key (Some v) h = (r, h')"
              using Cons vs key kgeneric assms(2) by (auto simp: try_body_heap_def)
            then show ?thesis using assms(1) by (intro store_processed_heap_owned)
          next
            case False
            then have "h' = h" using Cons vs key kgeneric assms(2)
              by (cases "vt_value v1") (auto simp: try_body_heap_def)
            then show ?thesis using assms(1) same by simp
          qed
        qed
      next
        case kinsert
        show ?thesis
        proof (cases vs)
          case Nil
          then have "h' = h" using Cons key kinsert assms(2)
            by (auto simp: try_body_heap_def)
          then show ?thesis using assms(1) same by simp
        next
          case vs: (Cons v1 vs')
          show ?thesis
          proof (cases "re_compile re_ok (vt_value v1)")
            case (Inl x)
            then have "h' = h" using Cons vs key kinsert assms(2)
              by (auto simp: try_body_heap_def)
            then show ?thesis using assms(1) same by simp
          next
            case (Inr pat)
            show ?thesis
            proof (cases "meta e ''filename''")
              case None
              then have "h' = h" using Cons vs key kinsert Inr assms(2)
                by (auto simp: try_body_heap_def)
              then show ?thesis using assms(1) same by simp
            next
              case f: (Some f)
              show ?thesis
              proof (cases "meta e ''lineno''")
                case None
                then have "h' = h" using Cons vs key kinsert Inr f assms(2)
                  by (auto simp: try_body_heap_def)
                then show ?thesis using assms(1) same by simp
              next
                case l: (Some l)
                obtain r1 h1 where la:
                  "list_append_heap d key (InsertEntryOption (date e) pat f l) h = (r1, h1)"
                  by (cases "list_append_heap d key (InsertEntryOption (date e) pat f l) h")
                note o1 = list_append_heap_owned [OF assms(1) la]
                show ?thesis
                proof (cases r1)
                  case (Some x)
                  then have "h' = h1"
                    using Cons vs key kinsert Inr f l la assms(2)
                    by (auto simp: try_body_heap_def)
                  then show ?thesis using o1 by simp
                next
                  case None
                  then have "store_processed_heap d key None h1 = (r, h')"
                    using Cons vs key kinsert Inr f l la assms(2)
                    by (auto simp: try_body_heap_def)
                  then have "owned_from n d h' \<and> untouched_below n h1 h'"
                    using o1 store_processed_heap_owned by blast
                  then show ?thesis using o1 untouched_below_trans by blast
                qed
              qed
            qed
          qed
        qed
      qed
    qed
  qed
qed

lemma parse_entries_heap_owned:
  assumes "owned_from n d h" and "parse_entries_heap re_ok g d es errs h = (r, h')"
  shows "owned_from n d h' \<and> untouched_below n h h'"
  using assms
proof (induction es arbitrary: errs h)
  case Nil
  then show ?case by (simp add: untouched_below_refl)
next
  case (Cons e es)
  show ?case
  proof (cases "custom_type e = ''fava-option''")
    case False
    then show ?thesis using Cons by simp
  next
    case True
    obtain r1 h1 where tb: "try_body_heap re_ok g d e h = (r1, h1)"
      by (cases "try_body_heap re_ok g d e h")
    note o1 = try_body_heap_owned [OF Cons.prems(1) tb]
    show ?thesis
    proof (cases "\<exists>x. r1 = Some x \<and> \<not> caught x")
      case True
      then have "h' = h1" using Cons.prems(2) \<open>custom_type e = ''fava-option''\<close> tb by auto
      then show ?thesis using o1 by simp
    next
      case False
      then obtain errs1 where "parse_entries_heap re_ok g d es errs1 h1 = (r, h')"
        using Cons.prems(2) True tb by (cases r1) (auto split: if_splits)
      then have "owned_from n d h' \<and> untouched_below n h1 h'"
        using o1 Cons.IH by blast
      then show ?thesis using o1 untouched_below_trans by blast
    qed
  qed
qed

lemma parse_options_heap_untouched:
  assumes "parse_options_heap re_ok g es h = (r, h')"
  shows "untouched_below (lim h) h h'"
proof -
  obtain d h1 where dc: "deepcopy g h = (d, h1)" by (cases "deepcopy g h")
  then have run: "parse_entries_heap re_ok g d es [] h1 = (r, h')"
    using assms by (simp add: parse_options_heap_def)
  have "owned_from (lim h) d h1" and u1: "untouched_below (lim h) h h1"
    using deepcopy_owned [OF dc] by blast+
  then have "untouched_below (lim h) h1 h'"
    using parse_entries_heap_owned run by blast
  then show ?thesis using u1 untouched_below_trans by blast
qed

section \<open>The parser on the heap computes what the parser on values computes\<close>

lemma read_dict_apply: "read_dict h d k = map_option (read_cell h) (dict_get d k h)"
  by (simp add: read_dict_def dict_get_def map_of_map)

lemma dict_get_dict_set:
  "dict_get d k' (dict_set d k c h) = (if k' = k then Some c else dict_get d k' h)"
  by (simp add: dict_get_def dict_set_def AList.update_conv')

lemma lists_dict_set: "lists (dict_set d k c h) = lists h"
  by (simp add: dict_set_def)

lemma read_cell_dict_set: "read_cell (dict_set d k c h) = read_cell h"
  by (rule ext) (simp add: read_cell_def lists_dict_set split: cell.splits)

lemma read_dict_dict_set:
  "read_dict (dict_set d k c h) d = (read_dict h d)(k \<mapsto> read_cell h c)"
  by (rule ext) (simp add: read_dict_apply dict_get_dict_set read_cell_dict_set)

lemma holds_lists_iff:
  "holds_lists d h \<longleftrightarrow>
     (\<exists>a. dict_get d ''insert-entry'' h = Some (ListRef a)) \<and>
     (\<exists>a. dict_get d ''collapse-pattern'' h = Some (ListRef a))"
  by (simp add: holds_lists_def appended_keys_def)

lemma holds_lists_cong: "dicts h' d = dicts h d \<Longrightarrow> holds_lists d h' = holds_lists d h"
  by (simp add: holds_lists_def dict_get_def)

lemma distinct_list_refs_update_Val:
  "distinct (list_refs items) \<Longrightarrow> distinct (list_refs (AList.update k (Val v) items))"
  using list_refs_update_Val [of k v]
  by (induction items rule: list_refs.induct) auto

lemma distinct_list_refs_update_ListRef:
  "distinct (list_refs items) \<Longrightarrow> a \<notin> set (list_refs items) \<Longrightarrow>
     distinct (list_refs (AList.update k (ListRef a) items))"
  using list_refs_update_ListRef [of k a]
  by (induction items rule: list_refs.induct) auto

lemma dict_set_Val_ok:
  assumes "options_ok n d h" and "k \<notin> set appended_keys"
  shows "options_ok n d (dict_set d k (Val v) h)"
proof -
  have "holds_lists d (dict_set d k (Val v) h)"
    using assms by (auto simp: options_ok_def holds_lists_iff dict_get_dict_set appended_keys_def)
  moreover have "distinct (map fst (dicts (dict_set d k (Val v) h) d))"
    using assms(1) by (simp add: options_ok_def dict_set_def AList.distinct_update)
  moreover have "distinct (list_refs (dicts (dict_set d k (Val v) h) d))"
    using assms(1) by (simp add: options_ok_def dict_set_def distinct_list_refs_update_Val)
  ultimately show ?thesis
    using assms(1) dict_set_Val_owned [of n d h k v] by (simp add: options_ok_def)
qed

lemma dict_set_ListRef_ok:
  assumes "options_ok n d h" and "k \<notin> set appended_keys"
    and "n \<le> a" and "a < lim h" and "a \<notin> set (list_refs (dicts h d))"
  shows "options_ok n d (dict_set d k (ListRef a) h)"
proof -
  have "holds_lists d (dict_set d k (ListRef a) h)"
    using assms by (auto simp: options_ok_def holds_lists_iff dict_get_dict_set appended_keys_def)
  moreover have "distinct (map fst (dicts (dict_set d k (ListRef a) h) d))"
    using assms(1) by (simp add: options_ok_def dict_set_def AList.distinct_update)
  moreover have "distinct (list_refs (dicts (dict_set d k (ListRef a) h) d))"
    using assms(1,5)
    by (simp add: options_ok_def dict_set_def distinct_list_refs_update_ListRef)
  ultimately show ?thesis
    using assms(1,3,4) dict_set_ListRef_owned [of n d h a k] by (simp add: options_ok_def)
qed

lemma new_list_read:
  assumes "owned_from n d h"
  shows "read_dict (snd (new_list xs h)) d = read_dict h d"
proof (rule ext)
  fix k
  have d: "dicts (snd (new_list xs h)) = dicts h" by (simp add: new_list_def)
  have below: "\<forall>a \<in> set (list_refs (dicts h d)). a < lim h"
    using assms by (simp add: owned_from_def)
  show "read_dict (snd (new_list xs h)) d k = read_dict h d k"
  proof (cases "dict_get d k h")
    case None
    then show ?thesis by (simp add: read_dict_apply dict_get_def d)
  next
    case (Some c)
    show ?thesis
    proof (cases c)
      case (Val v)
      then show ?thesis using Some by (simp add: read_dict_apply dict_get_def d read_cell_def)
    next
      case (ListRef a)
      then have "(k, ListRef a) \<in> set (dicts h d)"
        using Some by (auto simp: dict_get_def dest: map_of_SomeD)
      then have "a < lim h" using below by (auto simp: set_list_refs)
      then show ?thesis using Some ListRef
        by (simp add: read_dict_apply dict_get_def d read_cell_def new_list_def)
    qed
  qed
qed

lemma new_list_ok:
  assumes "options_ok n d h"
  shows "options_ok n d (snd (new_list xs h))"
    and "read_dict (snd (new_list xs h)) d = read_dict h d"
    and "lim h \<notin> set (list_refs (dicts (snd (new_list xs h)) d))"
    and "lists (snd (new_list xs h)) (lim h) = xs"
proof -
  have d: "dicts (snd (new_list xs h)) = dicts h" by (simp add: new_list_def)
  have o: "owned_from n d h" using assms by (simp add: options_ok_def)
  then have below: "\<forall>a \<in> set (list_refs (dicts h d)). a < lim h"
    by (simp add: owned_from_def)
  show "options_ok n d (snd (new_list xs h))"
    using assms new_list_owned [of n d h xs] holds_lists_cong [of "snd (new_list xs h)" d h]
    by (simp add: options_ok_def d)
  show "lim h \<notin> set (list_refs (dicts (snd (new_list xs h)) d))"
    using below unfolding d by auto
  show "lists (snd (new_list xs h)) (lim h) = xs" by (simp add: new_list_def)
  show "read_dict (snd (new_list xs h)) d = read_dict h d"
    using o by (rule new_list_read)
qed

lemma list_ref_unique:
  assumes "distinct (list_refs items)"
    and "(k, ListRef a) \<in> set items" and "(k', ListRef a) \<in> set items"
  shows "k = k'"
  using assms
  by (induction items rule: list_refs.induct) (auto simp: set_list_refs)

lemma list_append_heap_simulates:
  assumes "options_ok n d h" and "k \<in> set appended_keys"
    and "list_append_heap d k x h = (r, h')"
  shows "list_append k x (read_dict h d) = (r, read_dict h' d) \<and> options_ok n d h'"
proof -
  obtain a where a: "dict_get d k h = Some (ListRef a)"
    using assms(1,2) by (auto simp: options_ok_def holds_lists_iff appended_keys_def)
  then have r: "r = None" and h': "h' = h\<lparr>lists := (lists h)(a := lists h a @ [x])\<rparr>"
    using assms(3) by (simp_all add: list_append_heap_def)
  have d: "dicts h' = dicts h" and l: "lim h' = lim h" by (simp_all add: h')
  have mem: "(k, ListRef a) \<in> set (dicts h d)"
    using a by (auto simp: dict_get_def dest: map_of_SomeD)
  have dist: "distinct (list_refs (dicts h d))" using assms(1) by (simp add: options_ok_def)
  have rd: "read_dict h' d = (read_dict h d)(k \<mapsto> PyList (lists h a @ [x]))"
  proof (rule ext)
    fix k'
    show "read_dict h' d k' = ((read_dict h d)(k \<mapsto> PyList (lists h a @ [x]))) k'"
    proof (cases "k' = k")
      case True
      then show ?thesis using a by (simp add: read_dict_apply dict_get_def d read_cell_def h')
    next
      case False
      show ?thesis
      proof (cases "dict_get d k' h")
        case None
        then show ?thesis using False by (simp add: read_dict_apply dict_get_def d)
      next
        case (Some c)
        show ?thesis
        proof (cases c)
          case (Val v)
          then show ?thesis using False Some
            by (simp add: read_dict_apply dict_get_def d read_cell_def)
        next
          case (ListRef b)
          then have "(k', ListRef b) \<in> set (dicts h d)"
            using Some by (auto simp: dict_get_def dest: map_of_SomeD)
          then have "b \<noteq> a" using list_ref_unique [OF dist mem] False by auto
          then show ?thesis using False Some ListRef
            by (simp add: read_dict_apply dict_get_def d read_cell_def h')
        qed
      qed
    qed
  qed
  have "list_append k x (read_dict h d) = (None, (read_dict h d)(k \<mapsto> PyList (lists h a @ [x])))"
    using a by (simp add: list_append_def read_dict_apply read_cell_def)
  moreover have "options_ok n d h'"
    using assms(1) holds_lists_cong [of h' d h]
    by (simp add: options_ok_def owned_from_def d l)
  ultimately show ?thesis using r rd by simp
qed

lemma process_value_not_None_typed:
  assumes "process_value k val = Inr pv" and "pv \<noteq> PyNone"
  shows "k \<in> set (STR_OPTS @ BOOL_OPTS @ INT_OPTS @ LIST_OPTS)" and "\<exists>v. val = Some v"
  using assms by (auto simp: process_value_def split: if_splits option.splits)

lemma store_processed_heap_simulates:
  assumes "options_ok n d h" and "store_processed_heap d k val h = (r, h')"
  shows "store_processed k val (read_dict h d) = (r, read_dict h' d) \<and> options_ok n d h'"
proof (cases "process_value k val")
  case (Inl x)
  then show ?thesis using assms by (simp add: store_processed_heap_def store_processed_def)
next
  case (Inr pv)
  consider (none) "pv = PyNone" | (multi) "pv \<noteq> PyNone" "k \<in> set MULTI_OPTS"
    | (single) "pv \<noteq> PyNone" "k \<notin> set MULTI_OPTS"
    by blast
  then show ?thesis
  proof cases
    case none
    then show ?thesis using assms Inr
      by (simp add: store_processed_heap_def store_processed_def new_object_def)
  next
    case multi
    obtain v where "val = Some v" using process_value_not_None_typed(2) [OF Inr multi(1)] ..
    then have pv: "pv = PyStr v" using Inr MULTI_OPTS_facts(2) [OF multi(2), of v] by simp
    have k: "k \<in> set appended_keys"
      using multi(2) by (simp add: MULTI_OPTS_def appended_keys_def)
    have "list_append_heap d k pv h = (r, h')"
      using assms(2) Inr multi pv by (simp add: store_processed_heap_def new_object_def)
    then have "list_append k pv (read_dict h d) = (r, read_dict h' d) \<and> options_ok n d h'"
      using assms(1) k by (intro list_append_heap_simulates)
    then show ?thesis using Inr multi by (simp add: store_processed_def)
  next
    case single
    have typed: "k \<in> set (STR_OPTS @ BOOL_OPTS @ INT_OPTS @ LIST_OPTS)"
      using process_value_not_None_typed(1) [OF Inr single(1)] .
    have k: "k \<notin> set appended_keys"
      using typed_key_facts(3) [OF typed] single(2)
      by (simp add: MULTI_OPTS_def appended_keys_def)
    have pure: "store_processed k val (read_dict h d) = (None, (read_dict h d)(k \<mapsto> pv))"
      using Inr single by (simp add: store_processed_def)
    show ?thesis
    proof (cases "\<exists>xs. pv = PyList xs")
      case True
      then obtain xs where xs: "pv = PyList xs" ..
      let ?h1 = "snd (new_list xs h)"
      have r: "r = None" and h': "h' = dict_set d k (ListRef (lim h)) ?h1"
        using assms(2) Inr single xs
        by (simp_all add: store_processed_heap_def new_object_def new_list_def)
      note nl = new_list_ok [OF assms(1), of xs]
      have nl': "n \<le> lim h" using assms(1) owned_from_lim [of n d h] by (simp add: options_ok_def)
      have "lim h < lim ?h1" by (simp add: new_list_addr)
      with nl(1) k nl' have "options_ok n d (dict_set d k (ListRef (lim h)) ?h1)"
        using nl(3) by (rule dict_set_ListRef_ok)
      then have "options_ok n d h'" unfolding h' .
      moreover have "read_dict h' d = (read_dict h d)(k \<mapsto> pv)"
        unfolding h' using nl(2,4) xs by (simp add: read_dict_dict_set read_cell_def)
      ultimately show ?thesis using pure r by simp
    next
      case False
      then have "new_object pv h = (Val pv, h)"
        by (cases pv) (simp_all add: new_object_def)
      then have r: "r = None" and h': "h' = dict_set d k (Val pv) h"
        using assms(2) Inr single by (simp_all add: store_processed_heap_def)
      have "options_ok n d h'"
        unfolding h' using assms(1) k by (rule dict_set_Val_ok)
      moreover have "read_dict h' d = (read_dict h d)(k \<mapsto> pv)"
        unfolding h' by (simp add: read_dict_dict_set read_cell_def)
      ultimately show ?thesis using pure r by simp
    qed
  qed
qed

lemma try_body_heap_simulates:
  assumes "options_ok n d h"
    and "\<forall>k. dict_get g k h = None \<longleftrightarrow> DEFAULTS k = None"
    and "try_body_heap re_ok g d e h = (r, h')"
  shows "try_body re_ok e (read_dict h d) = (r, read_dict h' d) \<and> options_ok n d h'"
proof (cases "custom_values e")
  case Nil
  then show ?thesis using assms by (simp add: try_body_heap_def try_body_def)
next
  case (Cons v0 vs)
  show ?thesis
  proof (cases "\<exists>key. vt_value v0 = PyStr key \<and> DEFAULTS key \<noteq> None")
    case False
    then show ?thesis using Cons assms
      by (cases "vt_value v0") (auto simp: try_body_heap_def try_body_def)
  next
    case True
    then obtain key where key: "vt_value v0 = PyStr key" "DEFAULTS key \<noteq> None"
      by blast
    then have gkey: "dict_get g key h \<noteq> None" using assms(2) by simp
    consider (kfile) "key = ''default-file''"
      | (kinsert) "key \<noteq> ''default-file''" "key = ''insert-entry''"
      | (kgeneric) "key \<noteq> ''default-file''" "key \<noteq> ''insert-entry''"
      by blast
    then show ?thesis
    proof cases
      case kfile
      show ?thesis
      proof (cases "meta e ''filename''")
        case None
        then show ?thesis using Cons key gkey kfile assms(1,3)
          by (auto simp: try_body_heap_def try_body_def)
      next
        case (Some f)
        let ?h1 = "dict_set d key (Val f) h"
        have heap: "store_processed_heap d key None ?h1 = (r, h')"
          using Cons key gkey kfile Some assms(3) by (auto simp: try_body_heap_def)
        have pure: "try_body re_ok e (read_dict h d) =
            store_processed key None ((read_dict h d)(key \<mapsto> f))"
          using Cons key kfile Some by (auto simp: try_body_def)
        have "key \<notin> set appended_keys" using kfile by (simp add: appended_keys_def)
        then have "options_ok n d ?h1" using assms(1) by (intro dict_set_Val_ok)
        then have "store_processed key None (read_dict ?h1 d) = (r, read_dict h' d) \<and>
            options_ok n d h'"
          using heap by (rule store_processed_heap_simulates)
        then show ?thesis using pure by (simp add: read_dict_dict_set read_cell_def)
      qed
    next
      case kgeneric
      show ?thesis
      proof (cases vs)
        case Nil
        then show ?thesis using Cons key gkey kgeneric assms(1,3)
          by (auto simp: try_body_heap_def try_body_def)
      next
        case vs: (Cons v1 vs')
        show ?thesis
        proof (cases "\<exists>v. vt_value v1 = PyStr v")
          case True
          then obtain v where v: "vt_value v1 = PyStr v" ..
          then have "store_processed_heap d key (Some v) h = (r, h')"
            using Cons vs key gkey kgeneric assms(3) by (auto simp: try_body_heap_def)
          then have "store_processed key (Some v) (read_dict h d) = (r, read_dict h' d) \<and>
              options_ok n d h'"
            using assms(1) by (intro store_processed_heap_simulates)
          moreover have "try_body re_ok e (read_dict h d) =
              store_processed key (Some v) (read_dict h d)"
            using Cons vs key kgeneric v by (auto simp: try_body_def)
          ultimately show ?thesis by simp
        next
          case False
          then show ?thesis using Cons vs key gkey kgeneric assms(1,3)
            by (cases "vt_value v1") (auto simp: try_body_heap_def try_body_def)
        qed
      qed
    next
      case kinsert
      have ka: "key \<in> set appended_keys" using kinsert by (simp add: appended_keys_def)
      show ?thesis
      proof (cases vs)
        case Nil
        then show ?thesis using Cons key gkey kinsert assms(1,3)
          by (auto simp: try_body_heap_def try_body_def)
      next
        case vs: (Cons v1 vs')
        show ?thesis
        proof (cases "re_compile re_ok (vt_value v1)")
          case (Inl x)
          then show ?thesis using Cons vs key gkey kinsert assms(1,3)
            by (auto simp: try_body_heap_def try_body_def)
        next
          case (Inr pat)
          show ?thesis
          proof (cases "meta e ''filename''")
            case None
            then show ?thesis using Cons vs key gkey kinsert Inr assms(1,3)
              by (auto simp: try_body_heap_def try_body_def)
          next
            case f: (Some f)
            show ?thesis
            proof (cases "meta e ''lineno''")
              case None
              then show ?thesis using Cons vs key gkey kinsert Inr f assms(1,3)
                by (auto simp: try_body_heap_def try_body_def)
            next
              case l: (Some l)
              let ?x = "InsertEntryOption (date e) pat f l"
              obtain r1 h1 where la: "list_append_heap d key ?x h = (r1, h1)"
                by (cases "list_append_heap d key ?x h")
              have s1: "list_append key ?x (read_dict h d) = (r1, read_dict h1 d)"
                and o1: "options_ok n d h1"
                using list_append_heap_simulates [OF assms(1) ka la] by simp_all
              show ?thesis
              proof (cases r1)
                case (Some x)
                then have "r = Some x" "h' = h1"
                  using Cons vs key gkey kinsert Inr f l la assms(3)
                  by (auto simp: try_body_heap_def)
                moreover have "try_body re_ok e (read_dict h d) = (Some x, read_dict h1 d)"
                  using Cons vs key kinsert Inr f l s1 Some by (auto simp: try_body_def)
                ultimately show ?thesis using o1 by simp
              next
                case None
                then have "store_processed_heap d key None h1 = (r, h')"
                  using Cons vs key gkey kinsert Inr f l la assms(3)
                  by (auto simp: try_body_heap_def)
                then have "store_processed key None (read_dict h1 d) = (r, read_dict h' d) \<and>
                    options_ok n d h'"
                  using o1 by (intro store_processed_heap_simulates)
                moreover have "try_body re_ok e (read_dict h d) =
                    store_processed key None (read_dict h1 d)"
                  using Cons vs key kinsert Inr f l s1 None by (auto simp: try_body_def)
                ultimately show ?thesis by simp
              qed
            qed
          qed
        qed
      qed
    qed
  qed
qed

lemma dict_get_untouched:
  "untouched_below n h h' \<Longrightarrow> g < n \<Longrightarrow> dict_get g k h' = dict_get g k h"
  by (simp add: untouched_below_def dict_get_def)

lemma parse_entries_heap_simulates:
  assumes "options_ok n d h" and "g < n"
    and "\<forall>k. dict_get g k h = None \<longleftrightarrow> DEFAULTS k = None"
  shows "read_result (parse_entries_heap re_ok g d es errs h) =
           parse_entries re_ok es (read_dict h d) errs"
  using assms(1,3)
proof (induction es arbitrary: errs h)
  case Nil
  show ?case by (simp add: read_result_def)
next
  case (Cons e es)
  show ?case
  proof (cases "custom_type e = ''fava-option''")
    case False
    then show ?thesis using Cons by simp
  next
    case True
    obtain r1 h1 where tb: "try_body_heap re_ok g d e h = (r1, h1)"
      by (cases "try_body_heap re_ok g d e h")
    have pure: "try_body re_ok e (read_dict h d) = (r1, read_dict h1 d)"
      and o1: "options_ok n d h1"
      using try_body_heap_simulates [OF Cons.prems tb] by simp_all
    have "owned_from n d h" using Cons.prems(1) by (simp add: options_ok_def)
    then have "untouched_below n h h1" using try_body_heap_owned tb by blast
    then have g1: "\<forall>k. dict_get g k h1 = None \<longleftrightarrow> DEFAULTS k = None"
      using Cons.prems(2) dict_get_untouched [OF _ assms(2)] by simp
    note IH = Cons.IH [OF o1 g1]
    show ?thesis
    proof (cases r1)
      case None
      then show ?thesis using True tb pure IH by simp
    next
      case (Some x)
      then show ?thesis using True tb pure IH by (simp add: read_result_def)
    qed
  qed
qed

text \<open>
  What the copy loop leaves behind, for the items still to be copied: the lists that
  existed are as they were, the keys outside the items are as they were in the new
  dictionary, an immutable value is stored as it is and a list is stored as a new list
  with the same items.
\<close>

lemma deepcopy_items_copies:
  assumes "owned_from n y h"
    and "distinct (map fst (dicts h y))" and "distinct (list_refs (dicts h y))"
    and "distinct (map fst items)" and "distinct (list_refs items)"
    and "\<forall>a \<in> set (list_refs items). a < n \<and> memo a = None"
    and "deepcopy_items items y memo h = (memo', h')"
  shows "(\<forall>a < lim h. lists h' a = lists h a)
    \<and> distinct (map fst (dicts h' y)) \<and> distinct (list_refs (dicts h' y))
    \<and> owned_from n y h'
    \<and> (\<forall>k. map_of items k = None \<longrightarrow> dict_get y k h' = dict_get y k h)
    \<and> (\<forall>k v. map_of items k = Some (Val v) \<longrightarrow> dict_get y k h' = Some (Val v))
    \<and> (\<forall>k a. map_of items k = Some (ListRef a) \<longrightarrow>
          (\<exists>a'. dict_get y k h' = Some (ListRef a') \<and> lists h' a' = lists h a))"
  using assms
proof (induction items arbitrary: memo h)
  case Nil
  then show ?case by simp
next
  case (Cons item items)
  obtain k c where item: "item = (k, c)" by (cases item)
  have knew: "map_of items k = None"
    using Cons.prems(4) item by (simp add: map_of_eq_None_iff)
  have nl: "n \<le> lim h" using Cons.prems(1) by (rule owned_from_lim)
  have dist_items: "distinct (map fst items)" using Cons.prems(4) by simp
  show ?case
  proof (cases c)
    case (Val v)
    let ?h1 = "dict_set y k (Val v) h"
    have run: "deepcopy_items items y memo ?h1 = (memo', h')"
      using Cons.prems(7) item Val by simp
    have refs: "list_refs (item # items) = list_refs items" using item Val by simp
    have IH: "(\<forall>a < lim ?h1. lists h' a = lists ?h1 a)
      \<and> distinct (map fst (dicts h' y)) \<and> distinct (list_refs (dicts h' y))
      \<and> owned_from n y h'
      \<and> (\<forall>k. map_of items k = None \<longrightarrow> dict_get y k h' = dict_get y k ?h1)
      \<and> (\<forall>k v. map_of items k = Some (Val v) \<longrightarrow> dict_get y k h' = Some (Val v))
      \<and> (\<forall>k a. map_of items k = Some (ListRef a) \<longrightarrow>
            (\<exists>a'. dict_get y k h' = Some (ListRef a') \<and> lists h' a' = lists ?h1 a))"
    proof (rule Cons.IH [OF _ _ _ dist_items _ _ run])
      show "owned_from n y ?h1" using Cons.prems(1) by (rule dict_set_Val_owned)
      show "distinct (map fst (dicts ?h1 y))"
        using Cons.prems(2) by (simp add: dict_set_def AList.distinct_update)
      show "distinct (list_refs (dicts ?h1 y))"
        using Cons.prems(3) by (simp add: dict_set_def distinct_list_refs_update_Val)
      show "distinct (list_refs items)" using Cons.prems(5) refs by simp
      show "\<forall>a \<in> set (list_refs items). a < n \<and> memo a = None"
        using Cons.prems(6) refs by simp
    qed
    have l1: "lists ?h1 = lists h" and lim1: "lim ?h1 = lim h" by (simp_all add: dict_set_def)
    show ?thesis
      using IH knew unfolding l1 lim1 item Val
      by (auto simp: dict_get_dict_set)
  next
    case (ListRef a)
    have a: "a < n" "memo a = None" "a \<notin> set (list_refs items)"
      using Cons.prems(5,6) item ListRef by auto
    let ?a' = "lim h"
    let ?hn = "snd (new_list (lists h a) h)"
    let ?h1 = "dict_set y k (ListRef ?a') ?hn"
    have run: "deepcopy_items items y (memo(a \<mapsto> ?a')) ?h1 = (memo', h')"
      using Cons.prems(7) item ListRef a(2) by (simp add: new_list_def)
    have on: "owned_from n y ?hn" using Cons.prems(1) by (rule new_list_owned)
    have dn: "dicts ?hn = dicts h" by (simp add: new_list_def)
    have fresh: "?a' \<notin> set (list_refs (dicts h y))"
      using Cons.prems(1) by (auto simp: owned_from_def)
    have IH: "(\<forall>b < lim ?h1. lists h' b = lists ?h1 b)
      \<and> distinct (map fst (dicts h' y)) \<and> distinct (list_refs (dicts h' y))
      \<and> owned_from n y h'
      \<and> (\<forall>k. map_of items k = None \<longrightarrow> dict_get y k h' = dict_get y k ?h1)
      \<and> (\<forall>k v. map_of items k = Some (Val v) \<longrightarrow> dict_get y k h' = Some (Val v))
      \<and> (\<forall>k b. map_of items k = Some (ListRef b) \<longrightarrow>
            (\<exists>a'. dict_get y k h' = Some (ListRef a') \<and> lists h' a' = lists ?h1 b))"
    proof (rule Cons.IH [OF _ _ _ dist_items _ _ run])
      show "owned_from n y ?h1"
        using on nl by (intro dict_set_ListRef_owned) (simp_all add: new_list_addr)
      show "distinct (map fst (dicts ?h1 y))"
        using Cons.prems(2) by (simp add: dict_set_def dn AList.distinct_update)
      show "distinct (list_refs (dicts ?h1 y))"
        using Cons.prems(3) fresh
        by (simp add: dict_set_def dn distinct_list_refs_update_ListRef)
      show "distinct (list_refs items)" using Cons.prems(5) item ListRef by simp
      show "\<forall>b \<in> set (list_refs items). b < n \<and> (memo(a \<mapsto> ?a')) b = None"
        using Cons.prems(6) item ListRef a(3) by auto
    qed
    have l1: "lists ?h1 b = (if b = ?a' then lists h a else lists h b)" for b
      by (simp add: dict_set_def new_list_def)
    have lim1: "lim ?h1 = Suc (lim h)" by (simp add: dict_set_def new_list_def)
    have g1: "dict_get y k' ?h1 = (if k' = k then Some (ListRef ?a') else dict_get y k' h)"
      for k'
      by (simp add: dict_get_dict_set) (simp add: dict_get_def dn)
    have old: "\<forall>b < lim h. lists h' b = lists h b"
      using IH l1 lim1 by auto
    have here: "dict_get y k h' = Some (ListRef ?a') \<and> lists h' ?a' = lists h a"
      using IH knew g1 l1 lim1 by auto
    have rest_none: "\<forall>k'. k' \<noteq> k \<longrightarrow> map_of items k' = None \<longrightarrow>
        dict_get y k' h' = dict_get y k' h"
      using IH g1 by auto
    have rest_list: "\<forall>k' b. map_of items k' = Some (ListRef b) \<longrightarrow>
        (\<exists>a'. dict_get y k' h' = Some (ListRef a') \<and> lists h' a' = lists h b)"
    proof (intro allI impI)
      fix k' b
      assume m: "map_of items k' = Some (ListRef b)"
      then have "(k', ListRef b) \<in> set items" by (rule map_of_SomeD)
      then have "b \<in> set (list_refs items)" by (auto simp: set_list_refs)
      then have "b < n" using Cons.prems(6) item ListRef by simp
      then have ne: "b \<noteq> ?a'" using nl by simp
      obtain a' where "dict_get y k' h' = Some (ListRef a')" "lists h' a' = lists ?h1 b"
        using IH m by blast
      then show "\<exists>a'. dict_get y k' h' = Some (ListRef a') \<and> lists h' a' = lists h b"
        using l1 [of b] ne by simp
    qed
    show ?thesis
      unfolding item ListRef
      using IH old here rest_none rest_list knew
      by (auto simp: map_of_Cons_code)
  qed
qed

lemma deepcopy_copies:
  assumes "defaults_intact g h" and "deepcopy g h = (y, h1)"
  shows "options_ok (lim h) y h1" and "read_dict h1 y = DEFAULTS"
proof -
  let ?n = "lim h"
  let ?h0 = "snd (new_dict [] h)"
  let ?items = "dicts h g"
  have g: "g < ?n" and keys: "distinct (map fst ?items)"
    and refs: "distinct (list_refs ?items)" "\<forall>a \<in> set (list_refs ?items). a < ?n"
    and hl: "holds_lists g h" and rd: "read_dict h g = DEFAULTS"
    using assms(1) by (simp_all add: defaults_intact_def list_all_iff)
  obtain memo where run: "deepcopy_items ?items ?n Map.empty ?h0 = (memo, h1)"
    and y: "y = ?n"
    using assms(2) by (auto simp: deepcopy_def new_dict_def split: prod.splits)
  have h0: "dicts ?h0 ?n = []" "lists ?h0 = lists h" "lim ?h0 = Suc ?n"
    by (simp_all add: new_dict_def)
  have o0: "owned_from ?n ?n ?h0"
    by (simp add: owned_from_def new_dict_def)
  have copies: "(\<forall>a < lim ?h0. lists h1 a = lists ?h0 a)
    \<and> distinct (map fst (dicts h1 ?n)) \<and> distinct (list_refs (dicts h1 ?n))
    \<and> owned_from ?n ?n h1
    \<and> (\<forall>k. map_of ?items k = None \<longrightarrow> dict_get ?n k h1 = dict_get ?n k ?h0)
    \<and> (\<forall>k v. map_of ?items k = Some (Val v) \<longrightarrow> dict_get ?n k h1 = Some (Val v))
    \<and> (\<forall>k a. map_of ?items k = Some (ListRef a) \<longrightarrow>
          (\<exists>a'. dict_get ?n k h1 = Some (ListRef a') \<and> lists h1 a' = lists ?h0 a))"
    using o0 _ _ keys refs(1) _ run
  proof (rule deepcopy_items_copies)
    show "distinct (map fst (dicts ?h0 ?n))" "distinct (list_refs (dicts ?h0 ?n))"
      by (simp_all add: h0)
    show "\<forall>a \<in> set (list_refs ?items). a < ?n \<and> Map.empty a = None"
      using refs(2) by simp
  qed
  have copied: "\<exists>a'. dict_get ?n k h1 = Some (ListRef a')"
    if "dict_get g k h = Some (ListRef a)" for k a
    using copies that unfolding dict_get_def [of g] by blast
  have "holds_lists ?n h1"
    using hl copied unfolding holds_lists_iff by blast
  then show "options_ok (lim h) y h1"
    using copies y by (simp add: options_ok_def)
  have "read_dict h1 ?n k = read_dict h g k" for k
  proof (cases "map_of ?items k")
    case None
    then have "dict_get ?n k h1 = None" using copies by (simp add: dict_get_def h0)
    then show ?thesis using None by (simp add: read_dict_apply dict_get_def [of g])
  next
    case (Some c)
    show ?thesis
    proof (cases c)
      case (Val v)
      then have "dict_get ?n k h1 = Some (Val v)" using copies Some by blast
      then show ?thesis using Some Val
        by (simp add: read_dict_apply dict_get_def [of g] read_cell_def)
    next
      case (ListRef a)
      then obtain a' where "dict_get ?n k h1 = Some (ListRef a')" "lists h1 a' = lists ?h0 a"
        using copies Some by blast
      then show ?thesis using Some ListRef
        by (simp add: read_dict_apply dict_get_def [of g] read_cell_def h0)
    qed
  qed
  then show "read_dict h1 y = DEFAULTS" using rd y by auto
qed

lemma parse_options_heap_refines:
  assumes "defaults_intact g h"
  shows "read_result (parse_options_heap re_ok g es h) = parse_options re_ok es"
proof -
  obtain y h1 where dc: "deepcopy g h = (y, h1)" by (cases "deepcopy g h")
  note ok = deepcopy_copies [OF assms dc]
  have g: "g < lim h" and rd: "read_dict h g = DEFAULTS"
    using assms by (simp_all add: defaults_intact_def)
  have "untouched_below (lim h) h h1" using deepcopy_owned [OF dc] by blast
  then have "dict_get g k h1 = dict_get g k h" for k
    using g by (rule dict_get_untouched)
  moreover have "dict_get g k h = None \<longleftrightarrow> DEFAULTS k = None" for k
    using read_dict_apply [of h g k] rd by simp
  ultimately have keys: "\<forall>k. dict_get g k h1 = None \<longleftrightarrow> DEFAULTS k = None"
    by simp
  have "read_result (parse_entries_heap re_ok g y es [] h1) =
      parse_entries re_ok es (read_dict h1 y) []"
    using ok(1) g keys by (rule parse_entries_heap_simulates)
  then show ?thesis
    using dc ok(2) by (simp add: parse_options_heap_def parse_options_def)
qed

lemma untouched_below_intact:
  assumes "defaults_intact g h" and "untouched_below (lim h) h h'"
  shows "defaults_intact g h'"
proof -
  have g: "g < lim h" and below: "\<forall>a \<in> set (list_refs (dicts h g)). a < lim h"
    using assms(1) by (simp_all add: defaults_intact_def list_all_iff)
  have d: "dicts h' g = dicts h g" and l: "lim h \<le> lim h'"
    and ls: "\<forall>a < lim h. lists h' a = lists h a"
    using assms(2) g by (simp_all add: untouched_below_def)
  have "read_dict h' g k = read_dict h g k" for k
  proof (cases "dict_get g k h")
    case None
    then show ?thesis by (simp add: read_dict_apply dict_get_def d)
  next
    case (Some c)
    show ?thesis
    proof (cases c)
      case (Val v)
      then show ?thesis using Some by (simp add: read_dict_apply dict_get_def d read_cell_def)
    next
      case (ListRef a)
      then have "(k, ListRef a) \<in> set (dicts h g)"
        using Some by (auto simp: dict_get_def dest: map_of_SomeD)
      then have "a < lim h" using below by (auto simp: set_list_refs)
      then show ?thesis using Some ListRef ls
        by (simp add: read_dict_apply dict_get_def d read_cell_def)
    qed
  qed
  then have "read_dict h' g = read_dict h g" by (rule ext)
  moreover have "holds_lists g h'" using assms(1) holds_lists_cong [OF d]
    by (simp add: defaults_intact_def)
  ultimately show ?thesis
    using assms(1) l below by (auto simp: defaults_intact_def d list_all_iff)
qed

lemma module_import_heap:
  "fst module_import = 7"
  "lim (snd module_import) = 8"
  "dicts (snd module_import) 7 =
    [(''account-journal-include-children'', Val (PyBool True)),
     (''currency-column'', Val (PyInt 61)),
     (''collapse-pattern'', ListRef 0),
     (''conversion-currencies'', ListRef 1),
     (''auto-reload'', Val (PyBool False)),
     (''default-file'', Val PyNone),
     (''fiscal-year-end'', Val (PyStr ''12-31'')),
     (''import-config'', Val PyNone),
     (''import-dirs'', ListRef 2),
     (''insert-entry'', ListRef 3),
     (''interval'', Val (PyStr ''month'')),
     (''journal-show'', ListRef 4),
     (''journal-show-document'', ListRef 5),
     (''journal-show-transaction'', ListRef 6),
     (''language'', Val PyNone),
     (''locale'', Val PyNone),
     (''show-accounts-with-zero-balance'', Val (PyBool True)),
     (''show-accounts-with-zero-transactions'', Val (PyBool True)),
     (''show-closed-accounts'', Val (PyBool False)),
     (''sidebar-show-queries'', Val (PyInt 5)),
     (''unrealized'', Val (PyStr ''Unrealized'')),
     (''upcoming-events'', Val (PyInt 7)),
     (''uptodate-indicator-grey-lookback-days'', Val (PyInt 60)),
     (''use-external-editor'', Val (PyBool False))]"
  "map (lists (snd module_import)) [0, 1, 2, 3, 4, 5, 6] =
    [[], map PyStr conversion_currencies, [], [],
     map PyStr [''transaction'', ''balance'', ''note'', ''document'', ''custom'', ''budget'',
       ''query''],
     map PyStr [''discovered'', ''statement''], map PyStr [''cleared'', ''pending'']]"
  by (simp_all add: module_import_def DEFAULTS_items_def new_list_def new_dict_def)

lemma module_import_intact:
  "defaults_intact (fst module_import) (snd module_import)"
proof -
  have "read_dict (snd module_import) 7 = DEFAULTS"
    using module_import_heap(4)
    by (simp add: read_dict_def module_import_heap(3) read_cell_def DEFAULTS_def
        DEFAULTS_items_def)
  then show ?thesis
    by (simp add: defaults_intact_def module_import_heap(1-3) holds_lists_iff dict_get_def)
qed

text \<open>
  C8. A call of \<^verbatim>\<open>parse_options\<close> changes no object that existed before the call:
  the dictionary \<^verbatim>\<open>DEFAULTS\<close> and the lists in it are what they were, whatever the
  entries are and whether the call returns or raises. So \<^verbatim>\<open>DEFAULTS\<close> is intact again
  after the call, and the call itself and every later call compute what the parser
  computes from the table of defaults.
\<close>

theorem parse_options_never_changes_DEFAULTS:
  assumes "defaults_intact g h"
    and "parse_options_heap re_ok g es h = (r, h')"
  shows
    "dicts h' g = dicts h g
     \<and> (\<forall>a \<in> set (list_refs (dicts h g)). lists h' a = lists h a)
     \<and> (\<forall>a < lim h. lists h' a = lists h a \<and> dicts h' a = dicts h a)
     \<and> defaults_intact g h'
     \<and> read_result (r, h') = parse_options re_ok es
     \<and> (\<forall>es'. read_result (parse_options_heap re_ok g es' h') = parse_options re_ok es')"
proof -
  have u: "untouched_below (lim h) h h'"
    using assms(2) by (rule parse_options_heap_untouched)
  have g: "g < lim h" and below: "\<forall>a \<in> set (list_refs (dicts h g)). a < lim h"
    using assms(1) by (simp_all add: defaults_intact_def list_all_iff)
  have intact: "defaults_intact g h'"
    using assms(1) u by (rule untouched_below_intact)
  have "read_result (r, h') = parse_options re_ok es"
    using parse_options_heap_refines [OF assms(1), of re_ok es] assms(2) by simp
  moreover have "\<forall>es'. read_result (parse_options_heap re_ok g es' h') = parse_options re_ok es'"
    using parse_options_heap_refines [OF intact] by simp
  ultimately show ?thesis
    using u g below intact by (auto simp: untouched_below_def)
qed

theorem parse_options_never_changes_DEFAULTS_witness:
  "defaults_intact (fst module_import) (snd module_import)
   \<and> dicts
       (snd (parse_options_heap only_paren_invalid (fst module_import)
               [fava_option 1 [PyStr ''insert-entry'', PyStr ''^2016''],
                fava_option 2 [PyStr ''collapse-pattern'', PyStr ''.*:Old''],
                fava_option 3 [PyStr ''import-dirs'', PyStr ''in out'']]
               (snd module_import)))
       (fst module_import) =
     dicts (snd module_import) (fst module_import)
   \<and> read_result
       (parse_options_heap only_paren_invalid (fst module_import)
          [fava_option 1 [PyStr ''insert-entry'', PyStr ''^2016''],
           fava_option 2 [PyStr ''collapse-pattern'', PyStr ''.*:Old''],
           fava_option 3 [PyStr ''import-dirs'', PyStr ''in out'']]
          (snd module_import)) =
     Inr (DEFAULTS
           (''insert-entry'' \<mapsto>
              PyList [InsertEntryOption (PyDate 2016 4 1) (PyPattern ''^2016'')
                        (PyStr ''main.beancount'') (PyInt 1)],
            ''collapse-pattern'' \<mapsto> PyList [PyStr ''.*:Old''],
            ''import-dirs'' \<mapsto> PyList [PyStr ''in'', PyStr ''out'']), [])"
proof -
  let ?es = "[fava_option 1 [PyStr ''insert-entry'', PyStr ''^2016''],
                fava_option 2 [PyStr ''collapse-pattern'', PyStr ''.*:Old''],
                fava_option 3 [PyStr ''import-dirs'', PyStr ''in out'']]"
  let ?run = "parse_options_heap only_paren_invalid (fst module_import) ?es (snd module_import)"
  have pure: "parse_options only_paren_invalid ?es =
     Inr (DEFAULTS
           (''insert-entry'' \<mapsto>
              PyList [InsertEntryOption (PyDate 2016 4 1) (PyPattern ''^2016'')
                        (PyStr ''main.beancount'') (PyInt 1)],
            ''collapse-pattern'' \<mapsto> PyList [PyStr ''.*:Old''],
            ''import-dirs'' \<mapsto> PyList [PyStr ''in'', PyStr ''out'']), [])"
    by (simp add: parse_options_def fava_option_def custom_at_def type_name_def try_body_def
        DEFAULTS_def DEFAULTS_items_def store_processed_def process_value_def STR_OPTS_def
        BOOL_OPTS_def INT_OPTS_def LIST_OPTS_def MULTI_OPTS_def list_append_def caught_def
        re_compile_def only_paren_invalid_def str_strip_def isspace_def)
  have run: "?run = (fst ?run, snd ?run)" by simp
  show ?thesis
    using parse_options_never_changes_DEFAULTS [OF module_import_intact run]
      module_import_intact pure
    by simp
qed


end
